theory Spec2Isabelle
  imports Complex_Main
begin

section \<open>Orientation visualiser: rotation, decoding, meshes and the update tick\<close>

text \<open>
  The repository holds two programs. \<open>mpu60503d.py\<close> (the 3-axis variant) reads
  \<open>yaw,pitch,roll\<close> lines and rotates three polygon collections;
  \<open>mpu_pitch_roll.py\<close> (the 2-axis variant) reads \<open>pitch,roll\<close> lines, keeps them in
  two bounded buffers and rotates a wireframe box. Functions of the first program carry
  the suffix \<open>3\<close>, functions of the second the suffix \<open>2\<close>; everything else keeps the
  name it has in the source. Floating-point numbers are modelled by \<open>real\<close>.
\<close>

subsection \<open>Arrays and the matrix product\<close>

type_synonym vec = "real list"
type_synonym mat = "real list list"

text \<open>\<open>np.radians\<close>: degrees to radians.\<close>

definition radians :: "real \<Rightarrow> real" where
  "radians d = d * pi / 180"

text \<open>The inner product of two one-dimensional arrays of the same length.\<close>

definition dot :: "vec \<Rightarrow> vec \<Rightarrow> real" where
  "dot u v = sum_list (map2 (*) u v)"

text \<open>\<open>M.T\<close> is \<^const>\<open>transpose\<close> of the list library.\<close>

text \<open>\<open>A @ B\<close> for two-dimensional arrays: entry \<open>(i, j)\<close> is row \<open>i\<close> of \<open>A\<close> times
  column \<open>j\<close> of \<open>B\<close>.\<close>

definition matmul :: "mat \<Rightarrow> mat \<Rightarrow> mat" where
  "matmul A B = map (\<lambda>row. map (dot row) (transpose B)) A"

subsection \<open>RotationComposer\<close>

text \<open>The three arrays that both programs build inside \<open>rotation_matrix\<close>, each from an
  angle already converted to radians.\<close>

definition Rz :: "real \<Rightarrow> mat" where
  "Rz y = [[cos y, - sin y, 0],
           [sin y, cos y, 0],
           [0, 0, 1]]"

definition Ry :: "real \<Rightarrow> mat" where
  "Ry p = [[cos p, 0, sin p],
           [0, 1, 0],
           [- sin p, 0, cos p]]"

definition Rx :: "real \<Rightarrow> mat" where
  "Rx r = [[1, 0, 0],
           [0, cos r, - sin r],
           [0, sin r, cos r]]"

text \<open>\<open>mpu60503d.py\<close>: \<open>return Rz @ Ry @ Rx\<close> (the operator associates to the left).\<close>

definition rotation_matrix3 :: "real \<Rightarrow> real \<Rightarrow> real \<Rightarrow> mat" where
  "rotation_matrix3 yaw pitch roll =
     (let y = radians yaw; p = radians pitch; r = radians roll
      in matmul (matmul (Rz y) (Ry p)) (Rx r))"

text \<open>\<open>mpu_pitch_roll.py\<close>: \<open>return Ry @ Rx\<close>.\<close>

definition rotation_matrix2 :: "real \<Rightarrow> real \<Rightarrow> mat" where
  "rotation_matrix2 pitch roll =
     (let pitch' = radians pitch; roll' = radians roll
      in matmul (Ry pitch') (Rx roll'))"

text \<open>The determinant of a 3 x 3 array (cofactor expansion along the first row); any
  other shape has no determinant here.\<close>

fun det3 :: "mat \<Rightarrow> real option" where
  "det3 [[a, b, c], [d, e, f], [g, h, i]] =
     Some (a * (e * i - f * h) - b * (d * i - f * g) + c * (d * h - e * g))"
| "det3 _ = None"

definition identity3 :: mat where
  "identity3 = [[1, 0, 0], [0, 1, 0], [0, 0, 1]]"

text \<open>The rotation about one coordinate axis by an angle in radians, written out on the
  coordinates of a point: right-handed, counter-clockwise when seen from the positive axis
  looking at the origin. These follow the wording of the specification and are what the
  matrices of \<open>rotation_matrix\<close> are compared with.\<close>

fun about_x :: "real \<Rightarrow> vec \<Rightarrow> vec" where
  "about_x a [x, y, z] = [x, y * cos a - z * sin a, y * sin a + z * cos a]"
| "about_x a v = v"

fun about_y :: "real \<Rightarrow> vec \<Rightarrow> vec" where
  "about_y a [x, y, z] = [x * cos a + z * sin a, y, z * cos a - x * sin a]"
| "about_y a v = v"

fun about_z :: "real \<Rightarrow> vec \<Rightarrow> vec" where
  "about_z a [x, y, z] = [x * cos a - y * sin a, x * sin a + y * cos a, z]"
| "about_z a v = v"

subsection \<open>FrameDecoder\<close>

text \<open>The exceptions that the modelled statements can raise.\<close>

datatype exn = ValueError | TypeError | IndexError | AttributeError

text \<open>A line is a \<open>string\<close>, one \<open>char\<close> for each code point below 256. \<open>str.strip()\<close>
  removes the characters for which \<open>str.isspace()\<close> holds from both ends; below 256
  these are the code points 9 to 13, 28 to 32, 133 and 160.\<close>

definition isspace :: "char \<Rightarrow> bool" where
  "isspace c = (let n = (of_char c :: nat)
                in (9 \<le> n \<and> n \<le> 13) \<or> (28 \<le> n \<and> n \<le> 32) \<or> n = 133 \<or> n = 160)"

definition strip :: "string \<Rightarrow> string" where
  "strip s = rev (dropWhile isspace (rev (dropWhile isspace s)))"

text \<open>\<open>s.split(sep)\<close> for a separator of one character: always at least one field.\<close>

fun split :: "char \<Rightarrow> string \<Rightarrow> string list" where
  "split sep [] = [[]]"
| "split sep (c # cs) =
     (if c = sep then [] # split sep cs
      else (case split sep cs of f # fs \<Rightarrow> (c # f) # fs | [] \<Rightarrow> [[c]]))"

text \<open>The statement \<open>y, p, r = parts\<close>: a sequence of any other length raises.\<close>

definition unpack3 :: "'a list \<Rightarrow> exn + ('a \<times> 'a \<times> 'a)" where
  "unpack3 parts = (case parts of [y, p, r] \<Rightarrow> Inr (y, p, r) | _ \<Rightarrow> Inl ValueError)"

text \<open>Sequencing of statements that may raise.\<close>

definition exn_bind :: "exn + 'a \<Rightarrow> ('a \<Rightarrow> exn + 'b) \<Rightarrow> exn + 'b" where
  "exn_bind m f = (case m of Inl e \<Rightarrow> Inl e | Inr x \<Rightarrow> f x)"

text \<open>Python's built-in \<open>float\<close> is a parameter \<open>flt\<close> of the decoders and of everything
  that calls them: it returns the number a field denotes or raises. Every theorem below
  holds for any such function.

  \<open>mpu60503d.py\<close>, \<open>parse_line\<close>: the body of the \<open>try\<close> block, then the bare
  \<open>except\<close> that turns every exception into \<open>(None, None, None)\<close>.\<close>

definition parse_line3 ::
  "(string \<Rightarrow> exn + 'a) \<Rightarrow> string \<Rightarrow> 'a option \<times> 'a option \<times> 'a option" where
  "parse_line3 flt line =
     (case exn_bind (unpack3 (split CHR '','' (strip line))) (\<lambda>(y, p, r).
           exn_bind (flt y) (\<lambda>y'.
           exn_bind (flt p) (\<lambda>p'.
           exn_bind (flt r) (\<lambda>r'. Inr (y', p', r')))))
      of Inr (y', p', r') \<Rightarrow> (Some y', Some p', Some r')
       | Inl e \<Rightarrow> (None, None, None))"

text \<open>\<open>mpu_pitch_roll.py\<close>, \<open>parse_line\<close>: fewer than two fields return
  \<open>(None, None)\<close> at once; \<open>parts[0]\<close> and \<open>parts[1]\<close> exist otherwise.\<close>

definition parse_line2 ::
  "(string \<Rightarrow> exn + 'a) \<Rightarrow> string \<Rightarrow> 'a option \<times> 'a option" where
  "parse_line2 flt line =
     (let parts = split CHR '','' (strip line)
      in if length parts < 2 then (None, None)
         else (case exn_bind (flt (parts ! 0)) (\<lambda>pitch.
                    exn_bind (flt (parts ! 1)) (\<lambda>roll. Inr (pitch, roll)))
               of Inr (pitch, roll) \<Rightarrow> (Some pitch, Some roll)
                | Inl e \<Rightarrow> (None, None)))"

text \<open>A reader of plain decimal literals: an optional sign, digits, an optional point
  and digits, between ASCII whitespace (code points 9 to 13 and 32). It raises on every
  other string, also on strings that \<open>float\<close> accepts (exponents, \<open>inf\<close>, \<open>nan\<close>,
  underscores, whitespace beyond ASCII); on the strings it accepts it returns the number
  \<open>float\<close> returns. It stands for \<open>flt\<close> only where a decoder is run on a concrete
  line.\<close>

definition ascii_space :: "char \<Rightarrow> bool" where
  "ascii_space c = (let n = (of_char c :: nat) in (9 \<le> n \<and> n \<le> 13) \<or> n = 32)"

definition isdigit :: "char \<Rightarrow> bool" where
  "isdigit c = (let n = (of_char c :: nat) in 48 \<le> n \<and> n \<le> 57)"

definition digits_val :: "string \<Rightarrow> nat" where
  "digits_val ds = foldl (\<lambda>acc c. 10 * acc + (of_char c - 48)) 0 ds"

definition dec_float :: "string \<Rightarrow> exn + real" where
  "dec_float s =
     (let t = rev (dropWhile ascii_space (rev (dropWhile ascii_space s)));
          neg = (t \<noteq> [] \<and> hd t = CHR ''-'');
          u = (if t \<noteq> [] \<and> (hd t = CHR ''-'' \<or> hd t = CHR ''+'') then tl t else t);
          ip = takeWhile (\<lambda>c. c \<noteq> CHR ''.'') u;
          fp = drop 1 (dropWhile (\<lambda>c. c \<noteq> CHR ''.'') u)
      in if (ip = [] \<and> fp = []) \<or> \<not> list_all isdigit ip \<or> \<not> list_all isdigit fp
         then Inl ValueError
         else (let m = real (digits_val ip) + real (digits_val fp) / 10 ^ length fp
               in Inr (if neg then - m else m)))"

subsection \<open>MeshFactory\<close>

text \<open>A face is a two-dimensional array, one row for each vertex. The centre arguments
  are sequences of three numbers (the callers pass three-element lists), modelled as
  triples.\<close>

type_synonym point = "real \<times> real \<times> real"

text \<open>\<open>np.mgrid[start:stop:complex(0, res)]\<close> along one axis: \<open>res\<close> points from
  \<open>start\<close> to \<open>stop\<close>, both included; this is point number \<open>i\<close>.\<close>

definition mgrid :: "real \<Rightarrow> real \<Rightarrow> nat \<Rightarrow> nat \<Rightarrow> real" where
  "mgrid start stop res i = start + real i * ((stop - start) / real (res - 1))"

text \<open>\<open>verts[i, j]\<close> of \<open>create_sphere\<close>: \<open>phi\<close> varies with the first index,
  \<open>theta\<close> with the second.\<close>

definition sphere_vert :: "point \<Rightarrow> real \<Rightarrow> nat \<Rightarrow> nat \<Rightarrow> nat \<Rightarrow> vec" where
  "sphere_vert center radius res i j =
     (let phi = mgrid 0 pi res i; theta = mgrid 0 (2 * pi) res j
      in [fst center + radius * sin phi * cos theta,
          fst (snd center) + radius * sin phi * sin theta,
          snd (snd center) + radius * cos phi])"

definition create_sphere :: "point \<Rightarrow> real \<Rightarrow> nat \<Rightarrow> mat list" where
  "create_sphere center radius res =
     (let verts = map (\<lambda>i. map (\<lambda>j. sphere_vert center radius res i j) [0..<res]) [0..<res]
      in concat (map (\<lambda>i. map (\<lambda>j. [verts ! i ! j, verts ! (i + 1) ! j,
                                       verts ! (i + 1) ! (j + 1), verts ! i ! (j + 1)])
                                [0..<res - 1])
                     [0..<res - 1]))"

text \<open>\<open>np.linspace(0, 2*np.pi, res, endpoint=False)\<close>: point number \<open>i\<close>.\<close>

definition linspace_open :: "real \<Rightarrow> real \<Rightarrow> nat \<Rightarrow> nat \<Rightarrow> real" where
  "linspace_open start stop res i = start + real i * ((stop - start) / real res)"

definition create_cone :: "point \<Rightarrow> real \<Rightarrow> real \<Rightarrow> nat \<Rightarrow> mat list" where
  "create_cone base_center height radius res =
     (let theta = map (linspace_open 0 (2 * pi) res) [0..<res];
          x = map (\<lambda>t. fst base_center + radius * cos t) theta;
          y = map (\<lambda>t. fst (snd base_center) + radius * sin t) theta;
          z = map (\<lambda>t. snd (snd base_center)) x;
          tip = [fst base_center, fst (snd base_center), snd (snd base_center) + height]
      in map (\<lambda>i. [[x ! i, y ! i, z ! i],
                    [x ! ((i + 1) mod res), y ! ((i + 1) mod res), z ! ((i + 1) mod res)],
                    tip])
             [0..<res])"

text \<open>The box of \<open>mpu_pitch_roll.py\<close>: eight corners and twelve edges.\<close>

definition cube_definition :: mat where
  "cube_definition =
     [[-1, -1, -0.1], [-1, 1, -0.1], [1, 1, -0.1], [1, -1, -0.1],
      [-1, -1, 0.1], [-1, 1, 0.1], [1, 1, 0.1], [1, -1, 0.1]]"

definition edges :: "(nat \<times> nat) list" where
  "edges = [(0, 1), (1, 2), (2, 3), (3, 0),
            (4, 5), (5, 6), (6, 7), (7, 4),
            (0, 4), (1, 5), (2, 6), (3, 7)]"

subsection \<open>The byte source\<close>

text \<open>The serial port is the list of lines that are still to arrive, already decoded to
  text, and a count of the \<open>readline\<close> calls made so far. A call that times out returns
  the empty string.\<close>

record serial =
  pending :: "string list"
  reads :: nat

definition readline :: "serial \<Rightarrow> string \<times> serial" where
  "readline s =
     (case pending s of
        [] \<Rightarrow> ([], s\<lparr>reads := reads s + 1\<rparr>)
      | l # ls \<Rightarrow> (l, s\<lparr>pending := ls, reads := reads s + 1\<rparr>))"

definition open_serial :: "string list \<Rightarrow> serial" where
  "open_serial ls = \<lparr>pending = ls, reads = 0\<rparr>"

subsection \<open>UpdateScheduler, 3-axis variant\<close>

text \<open>The state of \<open>mpu60503d.py\<close>: the port, the angle each text label shows (nothing
  at startup), the vertices each polygon collection holds, and a count of the calls that
  changed a drawn object (\<open>set_text\<close>, \<open>set_verts\<close>).\<close>

record state3 =
  ser3 :: serial
  yaw_text :: "real option"
  pitch_text :: "real option"
  roll_text :: "real option"
  body_poly :: "mat list"
  head_poly :: "mat list"
  beak_poly :: "mat list"
  sink_calls3 :: nat

definition body_faces :: "mat list" where
  "body_faces = create_sphere (0, 0, 0) 0.25 12"

definition head_faces :: "mat list" where
  "head_faces = create_sphere (0, 0, 0.35) 0.12 12"

definition beak_faces :: "mat list" where
  "beak_faces = create_cone (0, 0.18, 0.35) 0.07 0.07 12"

definition init3 :: "string list \<Rightarrow> state3" where
  "init3 ls = \<lparr>ser3 = open_serial ls, yaw_text = None, pitch_text = None, roll_text = None,
               body_poly = body_faces, head_poly = head_faces, beak_poly = beak_faces,
               sink_calls3 = 0\<rparr>"

text \<open>The \<open>for _ in range(3)\<close> loop with \<open>k\<close> rounds left. \<open>Some\<close> is the
  \<open>break\<close>, with the three variables as \<open>parse_line\<close> left them; \<open>None\<close> is the
  \<open>else\<close> branch of the loop.\<close>

fun burst3 :: "(string \<Rightarrow> exn + real) \<Rightarrow> nat \<Rightarrow> serial \<Rightarrow>
    (real option \<times> real option \<times> real option) option \<times> serial" where
  "burst3 flt 0 s = (None, s)"
| "burst3 flt (Suc k) s =
     (let (raw, s') = readline s;
          (yaw, pitch, roll) = parse_line3 flt raw
      in if yaw \<noteq> None then (Some (yaw, pitch, roll), s') else burst3 flt k s')"

text \<open>\<open>poly.get_verts()\<close> on a \<open>Poly3DCollection\<close>: the class and its base classes
  define \<open>set_verts\<close> and no \<open>get_verts\<close>, so looking the attribute up raises
  \<open>AttributeError\<close>, whatever the collection holds.\<close>

definition get_verts :: "mat list \<Rightarrow> exn + mat list" where
  "get_verts poly = Inl AttributeError"

text \<open>The inner function \<open>rotate_poly\<close>, up to the vertices it passes to
  \<open>set_verts\<close>.\<close>

definition rotate_poly :: "mat \<Rightarrow> mat list \<Rightarrow> exn + mat list" where
  "rotate_poly R poly =
     exn_bind (get_verts poly) (\<lambda>verts. Inr (map (\<lambda>v. matmul v (transpose R)) verts))"

text \<open>One tick. \<open>Inr st'\<close>: the tick returned and left the state \<open>st'\<close>.
  \<open>Inl (e, st')\<close>: the tick raised \<open>e\<close>, and \<open>st'\<close> is the state that the statements
  before the raise left. The statements after the loop run in the order of the source:
  the three labels, the matrix, then the three collections. Formatting \<open>None\<close> with
  \<open>:.1f\<close> raises \<open>TypeError\<close>.\<close>

definition update3 :: "(string \<Rightarrow> exn + real) \<Rightarrow> state3 \<Rightarrow> (exn \<times> state3) + state3" where
  "update3 flt st =
     (case burst3 flt 3 (ser3 st) of
        (None, s) \<Rightarrow> Inr (st\<lparr>ser3 := s\<rparr>)
      | (Some (yaw, pitch, roll), s) \<Rightarrow>
          (case yaw of
             None \<Rightarrow> Inl (TypeError, st\<lparr>ser3 := s\<rparr>)
           | Some y \<Rightarrow>
          (let st1 = st\<lparr>ser3 := s, yaw_text := Some y, sink_calls3 := sink_calls3 st + 1\<rparr>
           in case pitch of
             None \<Rightarrow> Inl (TypeError, st1)
           | Some p \<Rightarrow>
          (let st2 = st1\<lparr>pitch_text := Some p, sink_calls3 := sink_calls3 st1 + 1\<rparr>
           in case roll of
             None \<Rightarrow> Inl (TypeError, st2)
           | Some r \<Rightarrow>
          (let st3 = st2\<lparr>roll_text := Some r, sink_calls3 := sink_calls3 st2 + 1\<rparr>;
               R = rotation_matrix3 y p r
           in case rotate_poly R (body_poly st3) of
             Inl e \<Rightarrow> Inl (e, st3)
           | Inr body \<Rightarrow>
          (let st4 = st3\<lparr>body_poly := body, sink_calls3 := sink_calls3 st3 + 1\<rparr>
           in case rotate_poly R (head_poly st4) of
             Inl e \<Rightarrow> Inl (e, st4)
           | Inr head \<Rightarrow>
          (let st5 = st4\<lparr>head_poly := head, sink_calls3 := sink_calls3 st4 + 1\<rparr>
           in case rotate_poly R (beak_poly st5) of
             Inl e \<Rightarrow> Inl (e, st5)
           | Inr beak \<Rightarrow>
               Inr (st5\<lparr>beak_poly := beak,
                        sink_calls3 := sink_calls3 st5 + 1\<rparr>))))))))"

subsection \<open>SampleBuffer and UpdateScheduler, 2-axis variant\<close>

text \<open>The state of \<open>mpu_pitch_roll.py\<close>: the port, the two buffers, the data of the
  twelve line objects (x, y and z coordinates of the two end points; empty at startup)
  and a count of the calls that changed a drawn object (\<open>set_data\<close>,
  \<open>set_3d_properties\<close>). \<open>roll_buf\<close> receives whatever \<open>parse_line\<close> returned for the
  roll, which by its type may be \<open>None\<close>.\<close>

record state2 =
  ser2 :: serial
  pitch_buf :: "real list"
  roll_buf :: "real option list"
  lines :: "(vec \<times> vec \<times> vec) list"
  sink_calls2 :: nat

definition WINDOW :: nat where
  "WINDOW = 200"

definition init2 :: "string list \<Rightarrow> state2" where
  "init2 ls = \<lparr>ser2 = open_serial ls, pitch_buf = [], roll_buf = [],
               lines = map (\<lambda>e. ([], [], [])) edges, sink_calls2 = 0\<rparr>"

text \<open>\<open>buf.pop(0)\<close> and \<open>buf[-1]\<close>: both raise on an empty list.\<close>

definition pop0 :: "'a list \<Rightarrow> exn + 'a list" where
  "pop0 buf = (case buf of [] \<Rightarrow> Inl IndexError | x # rest \<Rightarrow> Inr rest)"

definition index_last :: "'a list \<Rightarrow> exn + 'a" where
  "index_last buf = (if buf = [] then Inl IndexError else Inr (last buf))"

text \<open>Lines 95 to 100: append to both buffers; when \<open>pitch_buf\<close> is longer than the
  window, drop the front of both.\<close>

definition push :: "nat \<Rightarrow> real \<Rightarrow> real option \<Rightarrow> real list \<times> real option list \<Rightarrow>
    exn + (real list \<times> real option list)" where
  "push W pitch roll bufs =
     (let pb = fst bufs @ [pitch]; rb = snd bufs @ [roll]
      in if length pb > W
         then exn_bind (pop0 pb) (\<lambda>pb'. exn_bind (pop0 rb) (\<lambda>rb'. Inr (pb', rb')))
         else Inr (pb, rb))"

text \<open>The \<open>for _ in range(5)\<close> loop with \<open>k\<close> rounds left; it has no \<open>break\<close>.\<close>

fun burst2 :: "(string \<Rightarrow> exn + real) \<Rightarrow> nat \<Rightarrow> nat \<Rightarrow> state2 \<Rightarrow> exn + state2" where
  "burst2 flt W 0 st = Inr st"
| "burst2 flt W (Suc k) st =
     (let (raw, s') = readline (ser2 st);
          st1 = st\<lparr>ser2 := s'\<rparr>
      in if raw = [] then burst2 flt W k st1
         else (let (pitch, roll) = parse_line2 flt raw
               in case pitch of
                    None \<Rightarrow> burst2 flt W k st1
                  | Some p \<Rightarrow>
                      exn_bind (push W p roll (pitch_buf st1, roll_buf st1)) (\<lambda>(pb, rb).
                        burst2 flt W k (st1\<lparr>pitch_buf := pb, roll_buf := rb\<rparr>))))"

text \<open>The data one line object receives for its edge.\<close>

definition edge_data :: "mat \<Rightarrow> nat \<times> nat \<Rightarrow> vec \<times> vec \<times> vec" where
  "edge_data rotated e =
     (let start = fst e; stop = snd e
      in ([rotated ! start ! 0, rotated ! stop ! 0],
          [rotated ! start ! 1, rotated ! stop ! 1],
          [rotated ! start ! 2, rotated ! stop ! 2]))"

text \<open>The loop over \<open>enumerate(edges)\<close>. \<open>lines\<close> is built with one entry for each edge
  and never resized, so \<open>lines[idx]\<close> is always in range.\<close>

definition set_lines :: "mat \<Rightarrow> (vec \<times> vec \<times> vec) list \<Rightarrow> (vec \<times> vec \<times> vec) list" where
  "set_lines rotated ls =
     foldl (\<lambda>acc (idx, e). acc[idx := edge_data rotated e]) ls (enumerate 0 edges)"

text \<open>Lines 102 to 106: nothing to show while \<open>pitch_buf\<close> is empty, the last entry of
  each buffer otherwise.\<close>

definition latest :: "real list \<Rightarrow> real option list \<Rightarrow> exn + (real \<times> real option) option" where
  "latest pb rb =
     (if pb = [] then Inr None
      else exn_bind (index_last pb) (\<lambda>pitch.
           exn_bind (index_last rb) (\<lambda>roll. Inr (Some (pitch, roll)))))"

definition update2 :: "(string \<Rightarrow> exn + real) \<Rightarrow> nat \<Rightarrow> state2 \<Rightarrow> exn + state2" where
  "update2 flt W st =
     exn_bind (burst2 flt W 5 st) (\<lambda>st1.
     exn_bind (latest (pitch_buf st1) (roll_buf st1)) (\<lambda>sample.
       case sample of
         None \<Rightarrow> Inr st1
       | Some (pitch, None) \<Rightarrow> Inl TypeError
       | Some (pitch, Some roll) \<Rightarrow>
           (let R = rotation_matrix2 pitch roll;
                rotated = matmul cube_definition (transpose R)
            in Inr (st1\<lparr>lines := set_lines rotated (lines st1),
                        sink_calls2 := sink_calls2 st1 + 2 * length edges\<rparr>))))"

fun run2 :: "(string \<Rightarrow> exn + real) \<Rightarrow> nat \<Rightarrow> nat \<Rightarrow> state2 \<Rightarrow> exn + state2" where
  "run2 flt W 0 st = Inr st"
| "run2 flt W (Suc n) st = exn_bind (update2 flt W st) (run2 flt W n)"

subsection \<open>Notions used to state the properties\<close>

text \<open>The line that the \<open>i\<close>-th next \<open>readline\<close> returns, and the port after \<open>k\<close>
  calls.\<close>

definition nth_line :: "serial \<Rightarrow> nat \<Rightarrow> string" where
  "nth_line s i = (if i < length (pending s) then pending s ! i else [])"

definition advance :: "nat \<Rightarrow> serial \<Rightarrow> serial" where
  "advance k s = \<lparr>pending = drop k (pending s), reads = reads s + k\<rparr>"

text \<open>The \<open>W\<close> most recent elements of a history.\<close>

definition recent :: "nat \<Rightarrow> 'a list \<Rightarrow> 'a list" where
  "recent W xs = drop (length xs - W) xs"

text \<open>Pushing a list of samples one after the other.\<close>

fun push_all :: "nat \<Rightarrow> (real \<times> real option) list \<Rightarrow> real list \<times> real option list \<Rightarrow>
    exn + (real list \<times> real option list)" where
  "push_all W [] bufs = Inr bufs"
| "push_all W (x # xs) bufs = exn_bind (push W (fst x) (snd x) bufs) (push_all W xs)"

text \<open>The samples that the loop of the 2-axis variant takes from a list of raw lines: it
  skips an empty line and a line whose pitch is \<open>None\<close>.\<close>

definition decoded2 :: "(string \<Rightarrow> exn + real) \<Rightarrow> string list \<Rightarrow> (real \<times> real option) list" where
  "decoded2 flt raws =
     concat (map (\<lambda>raw. if raw = [] then []
                         else (case parse_line2 flt raw of
                                 (None, roll) \<Rightarrow> []
                               | (Some p, roll) \<Rightarrow> [(p, roll)])) raws)"

text \<open>The data the twelve line objects hold when the box is drawn at the given angles.\<close>

definition drawn2 :: "real \<Rightarrow> real \<Rightarrow> (vec \<times> vec \<times> vec) list" where
  "drawn2 pitch roll =
     map (edge_data (matmul cube_definition (transpose (rotation_matrix2 pitch roll)))) edges"

text \<open>What holds of the 2-axis state between ticks: the buffers have the same length, at
  most the window; no buffered roll is \<open>None\<close>; there is a line object for each edge;
  and once a sample is buffered, the line objects show the box at the latest sample.\<close>

definition inv2 :: "nat \<Rightarrow> state2 \<Rightarrow> bool" where
  "inv2 W st =
     (length (pitch_buf st) = length (roll_buf st) \<and> length (pitch_buf st) \<le> W
      \<and> None \<notin> set (roll_buf st) \<and> length (lines st) = length edges
      \<and> (pitch_buf st = []
          \<or> lines st = drawn2 (last (pitch_buf st)) (the (last (roll_buf st)))))"

text \<open>The apex vertex of the first face of the beak.\<close>

definition beak_tip :: "state3 \<Rightarrow> vec" where
  "beak_tip st = beak_poly st ! 0 ! 2"

section \<open>Verified properties\<close>

subsection \<open>Rotation matrices\<close>

lemma sin_cos_unit: "sin (x::real) * sin x + cos x * cos x = 1"
  using sin_cos_squared_add [of x] by (simp add: power2_eq_square)

lemma rotation_matrix3_entries:
  "rotation_matrix3 yaw pitch roll =
     (let y = radians yaw; p = radians pitch; r = radians roll
      in [[cos y * cos p, cos y * sin p * sin r - sin y * cos r,
           cos y * sin p * cos r + sin y * sin r],
          [sin y * cos p, sin y * sin p * sin r + cos y * cos r,
           sin y * sin p * cos r - cos y * sin r],
          [- sin p, cos p * sin r, cos p * cos r]])"
  by (simp add: rotation_matrix3_def Rz_def Ry_def Rx_def matmul_def dot_def Let_def)

lemma rotation_matrix2_entries:
  "rotation_matrix2 pitch roll =
     (let p = radians pitch; r = radians roll
      in [[cos p, sin p * sin r, sin p * cos r],
          [0, cos r, - sin r],
          [- sin p, cos p * sin r, cos p * cos r]])"
  by (simp add: rotation_matrix2_def Ry_def Rx_def matmul_def dot_def Let_def)

text \<open>The 2-axis matrix is the 3-axis matrix at yaw 0.\<close>

lemma rotation_matrix2_yaw0: "rotation_matrix2 pitch roll = rotation_matrix3 0 pitch roll"
  by (simp add: rotation_matrix2_entries rotation_matrix3_entries radians_def Let_def)

text \<open>The algebra behind orthonormality: the entries are polynomials in three pairs
  \<open>(c, s)\<close> on the unit circle.\<close>

lemma zyx_rows_orthonormal:
  fixes c1 s1 c2 s2 c3 s3 :: real
  assumes "s1 * s1 + c1 * c1 = 1" "s2 * s2 + c2 * c2 = 1" "s3 * s3 + c3 * c3 = 1"
  defines "M \<equiv> [[c1 * c2, c1 * s2 * s3 - s1 * c3, c1 * s2 * c3 + s1 * s3],
                [s1 * c2, s1 * s2 * s3 + c1 * c3, s1 * s2 * c3 - c1 * s3],
                [- s2, c2 * s3, c2 * c3]]"
  shows "matmul M (transpose M) = identity3"
  unfolding M_def matmul_def dot_def identity3_def
  apply simp
  apply (intro conjI)
  using assms(1-3) apply algebra+
  done

lemma zyx_columns_orthonormal:
  fixes c1 s1 c2 s2 c3 s3 :: real
  assumes "s1 * s1 + c1 * c1 = 1" "s2 * s2 + c2 * c2 = 1" "s3 * s3 + c3 * c3 = 1"
  defines "M \<equiv> [[c1 * c2, c1 * s2 * s3 - s1 * c3, c1 * s2 * c3 + s1 * s3],
                [s1 * c2, s1 * s2 * s3 + c1 * c3, s1 * s2 * c3 - c1 * s3],
                [- s2, c2 * s3, c2 * c3]]"
  shows "matmul (transpose M) M = identity3"
  unfolding M_def matmul_def dot_def identity3_def
  apply simp
  apply (intro conjI)
  using assms(1-3) apply algebra+
  done

lemma zyx_det:
  fixes c1 s1 c2 s2 c3 s3 :: real
  assumes "s1 * s1 + c1 * c1 = 1" "s2 * s2 + c2 * c2 = 1" "s3 * s3 + c3 * c3 = 1"
  shows "det3 [[c1 * c2, c1 * s2 * s3 - s1 * c3, c1 * s2 * c3 + s1 * s3],
               [s1 * c2, s1 * s2 * s3 + c1 * c3, s1 * s2 * c3 - c1 * s3],
               [- s2, c2 * s3, c2 * c3]] = Some 1"
  apply simp
  using assms apply algebra
  done

lemma rotation_matrix3_rows:
  "matmul (rotation_matrix3 yaw pitch roll) (transpose (rotation_matrix3 yaw pitch roll)) = identity3"
  unfolding rotation_matrix3_entries Let_def
  by (rule zyx_rows_orthonormal) (rule sin_cos_unit)+

lemma rotation_matrix3_columns:
  "matmul (transpose (rotation_matrix3 yaw pitch roll)) (rotation_matrix3 yaw pitch roll) = identity3"
  unfolding rotation_matrix3_entries Let_def
  by (rule zyx_columns_orthonormal) (rule sin_cos_unit)+

lemma rotation_matrix3_det: "det3 (rotation_matrix3 yaw pitch roll) = Some 1"
  unfolding rotation_matrix3_entries Let_def
  by (rule zyx_det) (rule sin_cos_unit)+

text \<open>
  Claim C4. For all real yaw, pitch and roll, the matrix \<open>R\<close> that \<open>rotation_matrix\<close>
  returns is orthonormal: \<open>R\<close> times its transpose is the identity (and so is the
  transpose times \<open>R\<close>) and the determinant is 1, in the 3-axis and in the 2-axis
  variant. The statement is exact, over the real numbers.
\<close>

theorem rotation_matrix_orthonormal:
  "matmul (rotation_matrix3 yaw pitch roll) (transpose (rotation_matrix3 yaw pitch roll)) = identity3
   \<and> matmul (transpose (rotation_matrix3 yaw pitch roll)) (rotation_matrix3 yaw pitch roll) = identity3
   \<and> det3 (rotation_matrix3 yaw pitch roll) = Some 1
   \<and> matmul (rotation_matrix2 pitch roll) (transpose (rotation_matrix2 pitch roll)) = identity3
   \<and> matmul (transpose (rotation_matrix2 pitch roll)) (rotation_matrix2 pitch roll) = identity3
   \<and> det3 (rotation_matrix2 pitch roll) = Some 1"
  by (simp only: rotation_matrix2_yaw0 rotation_matrix3_rows rotation_matrix3_columns
      rotation_matrix3_det simp_thms)

text \<open>
  Claim C5. In the 3-axis variant \<open>rotation_matrix\<close> is the product of the rotation
  about z by the yaw, about y by the pitch and about x by the roll, in this order, so that
  the matrix applied to a vertex (the code computes \<open>v @ R.T\<close>) rotates it about x by
  the roll first, then about y by the pitch, then about z by the yaw. In the 2-axis
  variant it rotates about x by the roll first, then about y by the pitch. In the 3-axis
  variant yaw 90, pitch 0, roll 0 sends the vertex (1, 0, 0) to (0, 1, 0).
\<close>

theorem rotation_matrix_composition_order:
  "rotation_matrix3 yaw pitch roll =
     matmul (Rz (radians yaw)) (matmul (Ry (radians pitch)) (Rx (radians roll)))
   \<and> matmul [[a, b, c]] (transpose (rotation_matrix3 yaw pitch roll)) =
     [about_z (radians yaw) (about_y (radians pitch) (about_x (radians roll) [a, b, c]))]
   \<and> matmul [[a, b, c]] (transpose (rotation_matrix2 pitch roll)) =
     [about_y (radians pitch) (about_x (radians roll) [a, b, c])]
   \<and> matmul [[1, 0, 0]] (transpose (rotation_matrix3 90 0 0)) = [[0, 1, 0]]"
proof -
  have "rotation_matrix3 yaw pitch roll =
     matmul (Rz (radians yaw)) (matmul (Ry (radians pitch)) (Rx (radians roll)))"
    by (simp add: rotation_matrix3_entries Let_def Rz_def Ry_def Rx_def matmul_def dot_def
        algebra_simps)
  moreover have "matmul [[a, b, c]] (transpose (rotation_matrix3 yaw pitch roll)) =
     [about_z (radians yaw) (about_y (radians pitch) (about_x (radians roll) [a, b, c]))]"
    by (simp add: rotation_matrix3_entries Let_def matmul_def dot_def algebra_simps)
  moreover have "matmul [[a, b, c]] (transpose (rotation_matrix2 pitch roll)) =
     [about_y (radians pitch) (about_x (radians roll) [a, b, c])]"
    by (simp add: rotation_matrix2_entries Let_def matmul_def dot_def algebra_simps)
  moreover have "matmul [[1, 0, 0]] (transpose (rotation_matrix3 90 0 0)) = [[0, 1, 0]]"
    by (simp add: rotation_matrix3_entries Let_def matmul_def dot_def radians_def)
  ultimately show ?thesis by (simp only: simp_thms)
qed

subsection \<open>Decoding a line\<close>

lemma length3_shape: "length fs = 3 \<Longrightarrow> \<exists>a b c. fs = [a, b, c]"
  by (auto simp: length_Suc_conv numeral_3_eq_3)

lemma unpack3_length:
  "unpack3 fs = (if length fs = 3 then Inr (fs ! 0, fs ! 1, fs ! 2) else Inl ValueError)"
  by (auto simp: unpack3_def split: list.splits)

lemma parse_line3_result:
  "parse_line3 flt line =
     (let fs = split CHR '','' (strip line)
      in if length fs = 3 \<and> (\<forall>f\<in>set fs. \<not> isl (flt f))
         then (Some (projr (flt (fs ! 0))), Some (projr (flt (fs ! 1))),
               Some (projr (flt (fs ! 2))))
         else (None, None, None))"
proof (cases "length (split CHR '','' (strip line)) = 3")
  case True
  then obtain a b c where fs: "split CHR '','' (strip line) = [a, b, c]"
    using length3_shape by blast
  show ?thesis
    by (simp add: parse_line3_def fs unpack3_def exn_bind_def Let_def split: sum.splits)
next
  case False
  then show ?thesis
    by (simp add: parse_line3_def unpack3_length exn_bind_def Let_def)
qed

lemma parse_line2_result:
  "parse_line2 flt line =
     (let fs = split CHR '','' (strip line)
      in if 2 \<le> length fs \<and> \<not> isl (flt (fs ! 0)) \<and> \<not> isl (flt (fs ! 1))
         then (Some (projr (flt (fs ! 0))), Some (projr (flt (fs ! 1))))
         else (None, None))"
  by (auto simp add: parse_line2_def exn_bind_def Let_def split: sum.splits)

lemma parse_line2_empty: "parse_line2 flt [] = (None, None)"
  by (simp add: parse_line2_result strip_def)

lemma parse_line3_empty: "parse_line3 flt [] = (None, None, None)"
  by (simp add: parse_line3_result strip_def)

lemma parse_line2_all_or_nothing:
  "parse_line2 flt line = (None, None) \<or> (\<exists>p r. parse_line2 flt line = (Some p, Some r))"
  by (simp add: parse_line2_result Let_def)

lemmas dec_float_eval =
  dec_float_def ascii_space_def strip_def isspace_def isdigit_def digits_val_def exn_bind_def
  unpack3_def

text \<open>
  Claim C6. \<open>parse_line\<close> is a total function of the line and raises nothing. In the
  3-axis variant it returns the three parsed numbers when the stripped line has exactly
  three comma-separated fields and \<open>float\<close> accepts each of them, and
  \<open>(None, None, None)\<close> in every other case. In the 2-axis variant it returns the two
  parsed numbers when the stripped line has at least two fields and \<open>float\<close> accepts the
  first two (further fields are not looked at), and \<open>(None, None)\<close> in every other
  case. The empty line is such a case in both variants; a result is never partly
  \<open>None\<close>.
\<close>

theorem parse_line_all_or_nothing:
  "parse_line3 flt line =
     (let fs = split CHR '','' (strip line)
      in if length fs = 3 \<and> (\<forall>f\<in>set fs. \<not> isl (flt f))
         then (Some (projr (flt (fs ! 0))), Some (projr (flt (fs ! 1))),
               Some (projr (flt (fs ! 2))))
         else (None, None, None))
   \<and> parse_line2 flt line =
     (let fs = split CHR '','' (strip line)
      in if 2 \<le> length fs \<and> \<not> isl (flt (fs ! 0)) \<and> \<not> isl (flt (fs ! 1))
         then (Some (projr (flt (fs ! 0))), Some (projr (flt (fs ! 1))))
         else (None, None))
   \<and> parse_line3 flt [] = (None, None, None)
   \<and> parse_line2 flt [] = (None, None)"
  using parse_line3_result [of flt line] parse_line2_result [of flt line]
    parse_line3_empty [of flt] parse_line2_empty [of flt]
  by (simp only: simp_thms)

theorem parse_line_all_or_nothing_witness:
  "parse_line3 dec_float ''10.5,-3.2,90.0'' = (Some 10.5, Some (- 3.2), Some 90)
   \<and> parse_line2 dec_float ''10.5,-3.2,90.0'' = (Some 10.5, Some (- 3.2))
   \<and> parse_line3 dec_float ''10.5,-3.2'' = (None, None, None)
   \<and> parse_line2 dec_float ''10.5,x'' = (None, None)"
  using parse_line_all_or_nothing [of dec_float "''10.5,-3.2,90.0''"]
    parse_line_all_or_nothing [of dec_float "''10.5,-3.2''"]
    parse_line_all_or_nothing [of dec_float "''10.5,x''"]
  by (simp add: dec_float_eval)

subsection \<open>The bounded buffers\<close>

lemma recent_recent_append: "recent W (recent W xs @ ys) = recent W (xs @ ys)"
  by (cases "length xs \<le> W") (auto simp: recent_def add.commute)

lemma length_recent: "length (recent W xs) = min W (length xs)"
  by (auto simp: recent_def)

lemma recent_full: "length xs = W \<Longrightarrow> recent W (xs @ [x]) = tl (xs @ [x])"
  unfolding recent_def by (simp add: drop_Suc del: drop_append)

lemma pop0_snoc: "pop0 (xs @ [x]) = Inr (tl (xs @ [x]))"
  by (simp add: pop0_def split: list.splits)

lemma push_recent:
  assumes "length pb = length rb" "length pb \<le> W"
  shows "push W p r (pb, rb) = Inr (recent W (pb @ [p]), recent W (rb @ [r]))"
proof (cases "length pb < W")
  case True
  with assms have "Suc (length pb) - W = 0" "Suc (length rb) - W = 0" by simp_all
  with True show ?thesis by (simp add: push_def recent_def Let_def)
next
  case False
  with assms have W: "length pb = W" "length rb = W" by simp_all
  then show ?thesis
    by (simp add: push_def Let_def exn_bind_def pop0_snoc recent_full)
qed

lemma push_all_recent:
  "length pb = length rb \<Longrightarrow> length pb \<le> W \<Longrightarrow>
   push_all W xs (pb, rb) = Inr (recent W (pb @ map fst xs), recent W (rb @ map snd xs))"
proof (induction xs arbitrary: pb rb)
  case Nil
  then show ?case by (simp add: recent_def)
next
  case (Cons x xs)
  have "push_all W (x # xs) (pb, rb) =
        push_all W xs (recent W (pb @ [fst x]), recent W (rb @ [snd x]))"
    using Cons.prems by (simp add: push_recent exn_bind_def)
  also have "\<dots> = Inr (recent W (recent W (pb @ [fst x]) @ map fst xs),
                       recent W (recent W (rb @ [snd x]) @ map snd xs))"
    using Cons.prems by (intro Cons.IH) (simp_all add: length_recent)
  finally show ?case by (simp add: recent_recent_append)
qed

text \<open>
  Claim C7. The two buffers start empty. A push onto buffers of equal length at most
  \<open>W\<close> appends the sample and, when that makes them longer than \<open>W\<close>, removes the
  front element of each, so they again hold at most \<open>W\<close> elements. Pushing any list of
  samples onto the empty buffers leaves the \<open>W\<close> most recent ones, in order. With a
  window of 3, pushing four samples leaves the last three and the latest sample is the
  fourth; on empty buffers there is no latest sample.
\<close>

theorem sample_buffer_fifo:
  "(length pb = length rb \<and> length pb \<le> W \<longrightarrow>
      push W p r (pb, rb) =
        Inr (if length pb < W then (pb @ [p], rb @ [r]) else (tl (pb @ [p]), tl (rb @ [r])))
      \<and> (\<forall>pb' rb'. push W p r (pb, rb) = Inr (pb', rb') \<longrightarrow>
            length pb' \<le> W \<and> length rb' = length pb'))
   \<and> push_all W xs ([], []) = Inr (map fst (recent W xs), map snd (recent W xs))
   \<and> push_all 3 [(1, Some 10), (2, Some 20), (3, Some 30), (4, Some 40)] ([], []) =
       Inr ([2, 3, 4], [Some 20, Some 30, Some 40])
   \<and> latest [2, 3, 4] [Some 20, Some 30, Some 40] = Inr (Some (4, Some 40))
   \<and> latest [] [] = Inr None
   \<and> pitch_buf (init2 ls) = [] \<and> roll_buf (init2 ls) = []"
proof -
  have one: "length pb = length rb \<and> length pb \<le> W \<longrightarrow>
      push W p r (pb, rb) =
        Inr (if length pb < W then (pb @ [p], rb @ [r]) else (tl (pb @ [p]), tl (rb @ [r])))
      \<and> (\<forall>pb' rb'. push W p r (pb, rb) = Inr (pb', rb') \<longrightarrow>
            length pb' \<le> W \<and> length rb' = length pb')"
  proof (intro impI, elim conjE)
    assume eq: "length pb = length rb" and le: "length pb \<le> W"
    have p: "push W p r (pb, rb) = Inr (recent W (pb @ [p]), recent W (rb @ [r]))"
      using eq le by (rule push_recent)
    have shape: "(recent W (pb @ [p]), recent W (rb @ [r])) =
        (if length pb < W then (pb @ [p], rb @ [r]) else (tl (pb @ [p]), tl (rb @ [r])))"
    proof (cases "length pb < W")
      case True
      with eq have "Suc (length pb) - W = 0" "Suc (length rb) - W = 0" by simp_all
      with True show ?thesis by (simp add: recent_def)
    next
      case False
      with eq le have "length pb = W" "length rb = W" by simp_all
      with False show ?thesis by (simp add: recent_full)
    qed
    have p': "push W p r (pb, rb) =
        Inr (if length pb < W then (pb @ [p], rb @ [r]) else (tl (pb @ [p]), tl (rb @ [r])))"
      by (simp only: p shape)
    have len: "\<forall>pb' rb'. push W p r (pb, rb) = Inr (pb', rb') \<longrightarrow>
            length pb' \<le> W \<and> length rb' = length pb'"
      using eq by (simp add: p length_recent)
    from p' len show "push W p r (pb, rb) =
        Inr (if length pb < W then (pb @ [p], rb @ [r]) else (tl (pb @ [p]), tl (rb @ [r])))
      \<and> (\<forall>pb' rb'. push W p r (pb, rb) = Inr (pb', rb') \<longrightarrow>
            length pb' \<le> W \<and> length rb' = length pb')"
      by (rule conjI)
  qed
  have many: "push_all W xs ([], []) = Inr (map fst (recent W xs), map snd (recent W xs))"
    by (simp add: push_all_recent recent_def drop_map)
  have ex: "push_all 3 [(1, Some 10), (2, Some 20), (3, Some 30), (4, Some 40)] ([], []) =
       Inr ([2, 3, 4], [Some 20, Some 30, Some 40])"
    using push_all_recent [of "[]" "[]" 3 "[(1, Some 10), (2, Some 20), (3, Some 30), (4, Some 40)]"]
    by (simp add: recent_def)
  have l1: "latest [2, 3, 4] [Some 20, Some 30, Some 40] = Inr (Some (4, Some 40))"
    by (simp add: latest_def index_last_def exn_bind_def)
  have l0: "latest [] [] = Inr None"
    by (simp add: latest_def)
  have i1: "pitch_buf (init2 ls) = []" and i2: "roll_buf (init2 ls) = []"
    by (simp_all add: init2_def)
  show ?thesis by (intro conjI one many ex l1 l0 i1 i2)
qed

theorem sample_buffer_fifo_witness:
  "length [1, 2, 3 :: real] = length [Some 10, Some 20, Some (30 :: real)]
   \<and> length [1, 2, 3 :: real] \<le> 3
   \<and> push 3 4 (Some 40) ([1, 2, 3], [Some 10, Some 20, Some 30]) =
       Inr ([2, 3, 4], [Some 20, Some 30, Some 40])"
proof -
  have h: "length [1, 2, 3 :: real] = length [Some 10, Some 20, Some (30 :: real)]
     \<and> length [1, 2, 3 :: real] \<le> 3"
    by simp
  have "push 3 4 (Some 40) ([1, 2, 3], [Some 10, Some 20, Some 30]) =
       Inr (if length [1, 2, 3 :: real] < 3
            then ([1, 2, 3] @ [4], [Some 10, Some 20, Some 30] @ [Some 40])
            else (tl ([1, 2, 3] @ [4]), tl ([Some 10, Some 20, Some 30] @ [Some 40])))"
    using sample_buffer_fifo [of "[1, 2, 3]" "[Some 10, Some 20, Some 30]" 3 4 "Some 40" "[]" "[]"]
      h by blast
  then have "push 3 4 (Some 40) ([1, 2, 3], [Some 10, Some 20, Some 30]) =
       Inr ([2, 3, 4], [Some 20, Some 30, Some 40])"
    by simp
  with h show ?thesis by blast
qed
subsection \<open>Meshes\<close>

lemma nth_concat_uniform:
  "\<forall>xs\<in>set xss. length xs = m \<Longrightarrow> i < length xss \<Longrightarrow> j < m \<Longrightarrow>
   concat xss ! (i * m + j) = xss ! i ! j"
proof (induction xss arbitrary: i)
  case Nil
  then show ?case by simp
next
  case (Cons xs xss)
  show ?case
  proof (cases i)
    case 0
    with Cons.prems show ?thesis by (simp add: nth_append)
  next
    case (Suc k)
    with Cons.prems have "concat xss ! (k * m + j) = xss ! k ! j"
      by (intro Cons.IH) simp_all
    with Suc Cons.prems show ?thesis by (simp add: nth_append)
  qed
qed

lemma length_concat_uniform:
  "\<forall>xs\<in>set xss. length xs = m \<Longrightarrow> length (concat xss) = length xss * m"
  by (induction xss) simp_all

lemma create_sphere_rows:
  "create_sphere center radius res =
     concat (map (\<lambda>i. map (\<lambda>j. [sphere_vert center radius res i j,
                                   sphere_vert center radius res (i + 1) j,
                                   sphere_vert center radius res (i + 1) (j + 1),
                                   sphere_vert center radius res i (j + 1)])
                           [0..<res - 1])
                 [0..<res - 1])"
  unfolding create_sphere_def Let_def
  by (intro arg_cong [where f = concat] map_cong refl) auto

lemma sphere_vert_coordinates:
  "sphere_vert (cx, cy, cz) radius res i j =
     [cx + radius * sin (real i * (pi / real (res - 1)))
                  * cos (real j * (2 * pi / real (res - 1))),
      cy + radius * sin (real i * (pi / real (res - 1)))
                  * sin (real j * (2 * pi / real (res - 1))),
      cz + radius * cos (real i * (pi / real (res - 1)))]"
  by (simp add: sphere_vert_def mgrid_def Let_def)

text \<open>
  Claim C8. For a resolution of at least 2, \<open>create_sphere\<close> returns the square of
  (resolution - 1) faces, each of four vertices. The vertices are points of the \<open>res\<close> by
  \<open>res\<close> grid of polar angles \<open>i * pi / (res - 1)\<close> and azimuth angles
  \<open>j * 2 * pi / (res - 1)\<close> on the sphere of the given centre and radius: grid point
  \<open>(i, j)\<close> has the coordinates written out as \<open>v i j\<close> below, and face number
  \<open>i * (res - 1) + j\<close> is the quadrilateral of the grid points \<open>(i, j)\<close>, \<open>(i + 1, j)\<close>,
  \<open>(i + 1, j + 1)\<close> and \<open>(i, j + 1)\<close>, in this order. With resolution 4 there are 9
  faces.
\<close>

theorem create_sphere_faces:
  assumes "2 \<le> res"
  shows "length (create_sphere (cx, cy, cz) radius res) = (res - 1)\<^sup>2
   \<and> (\<forall>f\<in>set (create_sphere (cx, cy, cz) radius res). length f = 4)
   \<and> (let v = (\<lambda>i j.
          [cx + radius * sin (real i * (pi / real (res - 1)))
                       * cos (real j * (2 * pi / real (res - 1))),
           cy + radius * sin (real i * (pi / real (res - 1)))
                       * sin (real j * (2 * pi / real (res - 1))),
           cz + radius * cos (real i * (pi / real (res - 1)))])
       in \<forall>i<res - 1. \<forall>j<res - 1.
            create_sphere (cx, cy, cz) radius res ! (i * (res - 1) + j) =
              [v i j, v (i + 1) j, v (i + 1) (j + 1), v i (j + 1)])"
proof -
  let ?c = "(cx, cy, cz)"
  let ?quad = "\<lambda>i j. [sphere_vert ?c radius res i j, sphere_vert ?c radius res (i + 1) j,
           sphere_vert ?c radius res (i + 1) (j + 1), sphere_vert ?c radius res i (j + 1)]"
  let ?rows = "map (\<lambda>i. map (?quad i) [0..<res - 1]) [0..<res - 1]"
  have uni: "\<forall>xs\<in>set ?rows. length xs = res - 1" by auto
  have c: "create_sphere ?c radius res = concat ?rows" by (rule create_sphere_rows)
  have len: "length (create_sphere ?c radius res) = (res - 1)\<^sup>2"
    unfolding c length_concat_uniform [OF uni] by (simp add: power2_eq_square)
  have quads: "\<forall>f\<in>set (create_sphere ?c radius res). length f = 4"
    unfolding c by auto
  have nth: "create_sphere ?c radius res ! (i * (res - 1) + j) = ?quad i j"
    if "i < res - 1" "j < res - 1" for i j
    unfolding c using nth_concat_uniform [OF uni, of i j] that by simp
  have grid: "let v = (\<lambda>i j.
          [cx + radius * sin (real i * (pi / real (res - 1)))
                       * cos (real j * (2 * pi / real (res - 1))),
           cy + radius * sin (real i * (pi / real (res - 1)))
                       * sin (real j * (2 * pi / real (res - 1))),
           cz + radius * cos (real i * (pi / real (res - 1)))])
       in \<forall>i<res - 1. \<forall>j<res - 1.
            create_sphere (cx, cy, cz) radius res ! (i * (res - 1) + j) =
              [v i j, v (i + 1) j, v (i + 1) (j + 1), v i (j + 1)]"
    unfolding Let_def
  proof (intro allI impI)
    fix i j assume "i < res - 1" "j < res - 1"
    then have "create_sphere ?c radius res ! (i * (res - 1) + j) = ?quad i j" by (rule nth)
    then show "create_sphere (cx, cy, cz) radius res ! (i * (res - 1) + j) =
        [[cx + radius * sin (real i * (pi / real (res - 1)))
                      * cos (real j * (2 * pi / real (res - 1))),
          cy + radius * sin (real i * (pi / real (res - 1)))
                      * sin (real j * (2 * pi / real (res - 1))),
          cz + radius * cos (real i * (pi / real (res - 1)))],
         [cx + radius * sin (real (i + 1) * (pi / real (res - 1)))
                      * cos (real j * (2 * pi / real (res - 1))),
          cy + radius * sin (real (i + 1) * (pi / real (res - 1)))
                      * sin (real j * (2 * pi / real (res - 1))),
          cz + radius * cos (real (i + 1) * (pi / real (res - 1)))],
         [cx + radius * sin (real (i + 1) * (pi / real (res - 1)))
                      * cos (real (j + 1) * (2 * pi / real (res - 1))),
          cy + radius * sin (real (i + 1) * (pi / real (res - 1)))
                      * sin (real (j + 1) * (2 * pi / real (res - 1))),
          cz + radius * cos (real (i + 1) * (pi / real (res - 1)))],
         [cx + radius * sin (real i * (pi / real (res - 1)))
                      * cos (real (j + 1) * (2 * pi / real (res - 1))),
          cy + radius * sin (real i * (pi / real (res - 1)))
                      * sin (real (j + 1) * (2 * pi / real (res - 1))),
          cz + radius * cos (real i * (pi / real (res - 1)))]]"
      by (simp only: sphere_vert_coordinates)
  qed
  show ?thesis by (intro conjI len quads grid)
qed

theorem create_sphere_faces_witness:
  "(2::nat) \<le> 4 \<and> length (create_sphere (0, 0, 0) 1 4) = 9
   \<and> create_sphere (0, 0, 0) 1 4 ! 0 ! 0 = [0, 0, 1]
   \<and> create_sphere (0, 0, 0) 1 4 ! 8 ! 2 = [0, 0, - 1]"
proof -
  have h: "(2::nat) \<le> 4" by simp
  note t = create_sphere_faces [OF h, of 0 0 0 1, unfolded Let_def]
  have l: "length (create_sphere (0, 0, 0) 1 4) = (4 - 1)\<^sup>2"
    using t by blast
  from t have g: "\<forall>i<4 - 1. \<forall>j<4 - 1.
      create_sphere (0, 0, 0) 1 4 ! (i * (4 - 1) + j) =
        [[0 + 1 * sin (real i * (pi / real (4 - 1))) * cos (real j * (2 * pi / real (4 - 1))),
          0 + 1 * sin (real i * (pi / real (4 - 1))) * sin (real j * (2 * pi / real (4 - 1))),
          0 + 1 * cos (real i * (pi / real (4 - 1)))],
         [0 + 1 * sin (real (i + 1) * (pi / real (4 - 1))) * cos (real j * (2 * pi / real (4 - 1))),
          0 + 1 * sin (real (i + 1) * (pi / real (4 - 1))) * sin (real j * (2 * pi / real (4 - 1))),
          0 + 1 * cos (real (i + 1) * (pi / real (4 - 1)))],
         [0 + 1 * sin (real (i + 1) * (pi / real (4 - 1))) * cos (real (j + 1) * (2 * pi / real (4 - 1))),
          0 + 1 * sin (real (i + 1) * (pi / real (4 - 1))) * sin (real (j + 1) * (2 * pi / real (4 - 1))),
          0 + 1 * cos (real (i + 1) * (pi / real (4 - 1)))],
         [0 + 1 * sin (real i * (pi / real (4 - 1))) * cos (real (j + 1) * (2 * pi / real (4 - 1))),
          0 + 1 * sin (real i * (pi / real (4 - 1))) * sin (real (j + 1) * (2 * pi / real (4 - 1))),
          0 + 1 * cos (real i * (pi / real (4 - 1)))]]"
    by blast
  from g [rule_format, of 0 0] have f0: "create_sphere (0, 0, 0) 1 4 ! 0 ! 0 = [0, 0, 1]"
    by simp
  from g [rule_format, of 2 2] have f8: "create_sphere (0, 0, 0) 1 4 ! 8 ! 2 = [0, 0, - 1]"
    by simp
  from h l f0 f8 show ?thesis by simp
qed

lemma create_cone_nth:
  assumes "i < res"
  shows "create_cone base_center height radius res ! i =
     [[fst base_center + radius * cos (linspace_open 0 (2 * pi) res i),
       fst (snd base_center) + radius * sin (linspace_open 0 (2 * pi) res i),
       snd (snd base_center)],
      [fst base_center + radius * cos (linspace_open 0 (2 * pi) res ((i + 1) mod res)),
       fst (snd base_center) + radius * sin (linspace_open 0 (2 * pi) res ((i + 1) mod res)),
       snd (snd base_center)],
      [fst base_center, fst (snd base_center), snd (snd base_center) + height]]"
proof -
  from assms have "(i + 1) mod res < res" by simp
  with assms show ?thesis by (simp add: create_cone_def Let_def)
qed

text \<open>
  Claim C9. For a resolution of at least 1, \<open>create_cone\<close> returns that many faces.
  Face \<open>i\<close> is the triangle of base point \<open>i\<close>, base point \<open>(i + 1) mod res\<close> and the
  apex, in this order; the base points lie on the circle around the base centre, at the
  angles \<open>i * 2 * pi / res\<close>, and the apex is the base centre raised by the height. The
  last face so returns to base point 0, and no face covers the base.
\<close>

theorem create_cone_faces:
  assumes "1 \<le> res"
  shows "length (create_cone (bx, by, bz) height radius res) = res
   \<and> (\<forall>i<res. create_cone (bx, by, bz) height radius res ! i =
        [[bx + radius * cos (real i * (2 * pi / real res)),
          by + radius * sin (real i * (2 * pi / real res)), bz],
         [bx + radius * cos (real ((i + 1) mod res) * (2 * pi / real res)),
          by + radius * sin (real ((i + 1) mod res) * (2 * pi / real res)), bz],
         [bx, by, bz + height]])
   \<and> create_cone (bx, by, bz) height radius res ! (res - 1) ! 1 =
       create_cone (bx, by, bz) height radius res ! 0 ! 0"
proof -
  have len: "length (create_cone (bx, by, bz) height radius res) = res"
    by (simp add: create_cone_def Let_def)
  have nth: "\<forall>i<res. create_cone (bx, by, bz) height radius res ! i =
        [[bx + radius * cos (real i * (2 * pi / real res)),
          by + radius * sin (real i * (2 * pi / real res)), bz],
         [bx + radius * cos (real ((i + 1) mod res) * (2 * pi / real res)),
          by + radius * sin (real ((i + 1) mod res) * (2 * pi / real res)), bz],
         [bx, by, bz + height]]"
    by (simp add: create_cone_nth linspace_open_def)
  have wrap: "create_cone (bx, by, bz) height radius res ! (res - 1) ! 1 =
       create_cone (bx, by, bz) height radius res ! 0 ! 0"
    using assms by (simp add: create_cone_nth linspace_open_def)
  show ?thesis by (intro conjI len nth wrap)
qed

theorem create_cone_faces_witness:
  "(1::nat) \<le> 6 \<and> length (create_cone (0, 0, 0) 1 1 6) = 6
   \<and> create_cone (0, 0, 0) 1 1 6 ! 5 ! 2 = [0, 0, 1]
   \<and> create_cone (0, 0, 0) 1 1 6 ! 5 ! 1 = [1, 0, 0]"
proof -
  have h: "(1::nat) \<le> 6" by simp
  note f = create_cone_faces [OF h, of 0 0 0 1 1]
  have l: "length (create_cone (0, 0, 0) 1 1 6) = 6" using f by blast
  have "(5::nat) < 6" by simp
  with f have "create_cone (0, 0, 0) 1 1 6 ! 5 =
        [[0 + 1 * cos (real 5 * (2 * pi / real 6)),
          0 + 1 * sin (real 5 * (2 * pi / real 6)), 0],
         [0 + 1 * cos (real ((5 + 1) mod 6) * (2 * pi / real 6)),
          0 + 1 * sin (real ((5 + 1) mod 6) * (2 * pi / real 6)), 0],
         [0, 0, 0 + 1]]" by blast
  then have "create_cone (0, 0, 0) 1 1 6 ! 5 ! 2 = [0, 0, 1]"
    "create_cone (0, 0, 0) 1 1 6 ! 5 ! 1 = [1, 0, 0]" by simp_all
  with h l show ?thesis by blast
qed

subsection \<open>The byte source and the read loop of the 3-axis variant\<close>

lemma readline_advance: "readline s = (nth_line s 0, advance 1 s)"
  by (cases s) (auto simp: readline_def nth_line_def advance_def split: list.splits)

lemma advance_advance: "advance k (advance j s) = advance (j + k) s"
  by (simp add: advance_def add.commute add.left_commute)

lemma advance_0: "advance 0 s = s"
  by (simp add: advance_def)

lemma nth_line_advance: "nth_line (advance k s) i = nth_line s (k + i)"
  by (auto simp: nth_line_def advance_def)

lemma burst3_miss:
  "(\<forall>j<k. fst (parse_line3 flt (nth_line s j)) = None) \<Longrightarrow>
   burst3 flt k s = (None, advance k s)"
proof (induction k arbitrary: s)
  case 0
  show ?case by (simp add: advance_0)
next
  case (Suc k)
  from Suc.prems have first: "fst (parse_line3 flt (nth_line s 0)) = None" by simp
  from Suc.prems have "\<forall>j<k. fst (parse_line3 flt (nth_line (advance 1 s) j)) = None"
    by (simp add: nth_line_advance)
  then have "burst3 flt k (advance 1 s) = (None, advance k (advance 1 s))"
    by (rule Suc.IH)
  with first show ?case
    by (auto simp add: readline_advance advance_advance split: prod.splits)
qed

lemma burst3_hit:
  "i < k \<Longrightarrow> (\<forall>j<i. fst (parse_line3 flt (nth_line s j)) = None) \<Longrightarrow>
   fst (parse_line3 flt (nth_line s i)) \<noteq> None \<Longrightarrow>
   burst3 flt k s = (Some (parse_line3 flt (nth_line s i)), advance (Suc i) s)"
proof (induction k arbitrary: s i)
  case 0
  then show ?case by simp
next
  case (Suc k)
  show ?case
  proof (cases i)
    case 0
    with Suc.prems show ?thesis
      by (auto simp add: readline_advance split: prod.splits)
  next
    case (Suc i')
    with Suc.prems have first: "fst (parse_line3 flt (nth_line s 0)) = None" by simp
    have "burst3 flt k (advance 1 s) =
        (Some (parse_line3 flt (nth_line (advance 1 s) i')), advance (Suc i') (advance 1 s))"
    proof (rule Suc.IH)
      show "i' < k" using Suc.prems(1) Suc by simp
      show "\<forall>j<i'. fst (parse_line3 flt (nth_line (advance 1 s) j)) = None"
        using Suc.prems(2) Suc by (simp add: nth_line_advance)
      show "fst (parse_line3 flt (nth_line (advance 1 s) i')) \<noteq> None"
        using Suc.prems(3) Suc by (simp add: nth_line_advance)
    qed
    with first Suc show ?thesis
      by (auto simp add: readline_advance advance_advance nth_line_advance split: prod.splits)
  qed
qed

lemma parse_line3_all_or_nothing:
  "parse_line3 flt line = (None, None, None)
   \<or> (\<exists>y p r. parse_line3 flt line = (Some y, Some p, Some r))"
  by (simp add: parse_line3_result Let_def)

lemma update3_skip:
  assumes "\<forall>j<3. fst (parse_line3 flt (nth_line (ser3 st) j)) = None"
  shows "update3 flt st = Inr (st\<lparr>ser3 := advance 3 (ser3 st)\<rparr>)"
  using burst3_miss [OF assms] by (simp add: update3_def)

text \<open>A tick in which a line decodes sets the three labels and then raises at the first
  \<open>get_verts\<close>: no collection is changed.\<close>

lemma update3_apply:
  assumes "i < 3" "\<forall>j<i. fst (parse_line3 flt (nth_line (ser3 st) j)) = None"
    and "parse_line3 flt (nth_line (ser3 st) i) = (Some yaw, Some pitch, Some roll)"
  shows "update3 flt st =
     Inl (AttributeError,
          st\<lparr>ser3 := advance (Suc i) (ser3 st),
             yaw_text := Some yaw, pitch_text := Some pitch, roll_text := Some roll,
             sink_calls3 := sink_calls3 st + 3\<rparr>)"
proof -
  have "fst (parse_line3 flt (nth_line (ser3 st) i)) \<noteq> None" using assms(3) by simp
  from burst3_hit [OF assms(1) assms(2) this] show ?thesis
    by (simp add: update3_def assms(3) Let_def rotate_poly_def get_verts_def exn_bind_def)
qed

subsection \<open>The read loop and the tick of the 2-axis variant\<close>

lemma foldl_update_enumerate:
  "n + length es \<le> length ls \<Longrightarrow>
   foldl (\<lambda>acc (idx, e). acc[idx := f e]) ls (enumerate n es) =
     take n ls @ map f es @ drop (n + length es) ls"
proof (induction es arbitrary: n ls)
  case Nil
  then show ?case by simp
next
  case (Cons e es)
  from Cons.prems have n: "n < length ls" by simp
  have "foldl (\<lambda>acc (idx, e). acc[idx := f e]) ls (enumerate n (e # es)) =
        foldl (\<lambda>acc (idx, e). acc[idx := f e]) (ls[n := f e]) (enumerate (Suc n) es)"
    by simp
  also have "\<dots> = take (Suc n) (ls[n := f e]) @ map f es @ drop (Suc n + length es) (ls[n := f e])"
    using Cons.prems by (intro Cons.IH) simp
  also have "take (Suc n) (ls[n := f e]) = take n ls @ [f e]"
    using n by (simp add: take_Suc_conv_app_nth)
  also have "drop (Suc n + length es) (ls[n := f e]) = drop (Suc n + length es) ls"
    by simp
  finally show ?case by simp
qed

lemma set_lines_all:
  "length ls = length edges \<Longrightarrow> set_lines rotated ls = map (edge_data rotated) edges"
  unfolding set_lines_def using foldl_update_enumerate [of 0 edges ls "edge_data rotated"]
  by simp

lemma decoded2_append: "decoded2 flt (xs @ ys) = decoded2 flt xs @ decoded2 flt ys"
  by (simp add: decoded2_def)

lemma decoded2_Cons:
  "decoded2 flt (raw # raws) =
     (if raw = [] then decoded2 flt raws
      else (case parse_line2 flt raw of
              (None, roll) \<Rightarrow> decoded2 flt raws
            | (Some p, roll) \<Rightarrow> (p, roll) # decoded2 flt raws))"
  by (simp add: decoded2_def split: prod.splits option.splits)

lemma decoded2_source:
  "(p, r) \<in> set (decoded2 flt raws) \<Longrightarrow> \<exists>raw\<in>set raws. parse_line2 flt raw = (Some p, r)"
  by (auto simp: decoded2_def split: if_splits prod.splits option.splits)

lemma decoded2_roll: "(p, r) \<in> set (decoded2 flt raws) \<Longrightarrow> r \<noteq> None"
  using decoded2_source [of p r flt raws] parse_line2_all_or_nothing [of flt] by (metis Pair_inject option.distinct(1))

lemma recent_short: "length xs \<le> W \<Longrightarrow> recent W xs = xs"
  by (simp add: recent_def)

lemma take_Suc_pending:
  "take (Suc k) (pending s) = (case pending s of [] \<Rightarrow> [] | l # ls \<Rightarrow> l # take k (pending (advance 1 s)))"
  by (simp add: advance_def split: list.splits)

lemma pending_advance: "pending (advance k s) = drop k (pending s)"
  by (simp add: advance_def)

lemma burst2_Suc:
  "burst2 flt W (Suc k) st =
     (let st1 = st\<lparr>ser2 := advance 1 (ser2 st)\<rparr>; raw = nth_line (ser2 st) 0
      in if raw = [] \<or> fst (parse_line2 flt raw) = None then burst2 flt W k st1
         else exn_bind (push W (the (fst (parse_line2 flt raw))) (snd (parse_line2 flt raw))
                          (pitch_buf st, roll_buf st))
                (\<lambda>(pb, rb). burst2 flt W k (st1\<lparr>pitch_buf := pb, roll_buf := rb\<rparr>)))"
  by (auto simp: readline_advance Let_def split: prod.splits option.splits)

lemma burst2_result:
  "length (pitch_buf st) = length (roll_buf st) \<Longrightarrow> length (pitch_buf st) \<le> W \<Longrightarrow>
   burst2 flt W k st =
     Inr (st\<lparr>ser2 := advance k (ser2 st),
             pitch_buf := recent W (pitch_buf st @ map fst (decoded2 flt (take k (pending (ser2 st))))),
             roll_buf := recent W (roll_buf st @ map snd (decoded2 flt (take k (pending (ser2 st)))))\<rparr>)"
proof (induction k arbitrary: st)
  case 0
  then show ?case by (simp add: advance_0 decoded2_def recent_short)
next
  case (Suc k)
  let ?s = "ser2 st"
  let ?st1 = "st\<lparr>ser2 := advance 1 ?s\<rparr>"
  let ?rest = "decoded2 flt (take k (pending (advance 1 ?s)))"
  have skip: "burst2 flt W k ?st1 =
     Inr (st\<lparr>ser2 := advance (Suc k) ?s,
             pitch_buf := recent W (pitch_buf st @ map fst ?rest),
             roll_buf := recent W (roll_buf st @ map snd ?rest)\<rparr>)"
    using Suc.IH [of ?st1] Suc.prems by (simp add: advance_advance)
  show ?case
  proof (cases "nth_line ?s 0 = [] \<or> fst (parse_line2 flt (nth_line ?s 0)) = None")
    case True
    then have "decoded2 flt (take (Suc k) (pending ?s)) = ?rest"
      by (cases "pending ?s")
        (auto simp: pending_advance decoded2_Cons nth_line_def split: prod.splits option.splits)
    moreover from True have "burst2 flt W (Suc k) st = burst2 flt W k ?st1"
      by (subst burst2_Suc) (simp add: Let_def)
    ultimately show ?thesis using skip by simp
  next
    case False
    then obtain p r where pr: "parse_line2 flt (nth_line ?s 0) = (Some p, r)"
      and ne: "nth_line ?s 0 \<noteq> []"
      by (cases "parse_line2 flt (nth_line ?s 0)") auto
    from ne obtain ls where pend: "pending ?s = nth_line ?s 0 # ls"
      by (cases "pending ?s") (auto simp: nth_line_def)
    have dec: "decoded2 flt (take (Suc k) (pending ?s)) = (p, r) # ?rest"
      using pr ne by (subst take_Suc_pending) (simp add: pend decoded2_Cons)
    let ?st2 = "?st1\<lparr>pitch_buf := recent W (pitch_buf st @ [p]),
                      roll_buf := recent W (roll_buf st @ [r])\<rparr>"
    have step: "burst2 flt W (Suc k) st = burst2 flt W k ?st2"
      using pr ne Suc.prems
      by (subst burst2_Suc) (simp add: Let_def push_recent exn_bind_def)
    have "burst2 flt W k ?st2 =
       Inr (?st2\<lparr>ser2 := advance k (ser2 ?st2),
             pitch_buf := recent W (pitch_buf ?st2 @ map fst (decoded2 flt (take k (pending (ser2 ?st2))))),
             roll_buf := recent W (roll_buf ?st2 @ map snd (decoded2 flt (take k (pending (ser2 ?st2)))))\<rparr>)"
      using Suc.prems by (intro Suc.IH) (simp_all add: length_recent)
    then show ?thesis
      unfolding step dec by (simp add: advance_advance recent_recent_append)
  qed
qed

lemma set_recent: "set (recent W xs) \<subseteq> set xs"
  by (simp add: recent_def set_drop_subset)

lemma last_recent: "recent W xs \<noteq> [] \<Longrightarrow> last (recent W xs) = last xs"
  by (simp add: recent_def)

lemma length_drawn2: "length (drawn2 pitch roll) = length edges"
  by (simp add: drawn2_def)

lemma update2_result:
  fixes flt :: "string \<Rightarrow> exn + real" and W :: nat and st :: state2
  assumes eq: "length (pitch_buf st) = length (roll_buf st)"
    and le: "length (pitch_buf st) \<le> W"
    and some: "None \<notin> set (roll_buf st)"
    and ln: "length (lines st) = length edges"
  defines "D \<equiv> decoded2 flt (take 5 (pending (ser2 st)))"
  defines "pb' \<equiv> recent W (pitch_buf st @ map fst D)"
  defines "rb' \<equiv> recent W (roll_buf st @ map snd D)"
  defines "st1 \<equiv> st\<lparr>ser2 := advance 5 (ser2 st), pitch_buf := pb', roll_buf := rb'\<rparr>"
  shows "update2 flt W st =
     Inr (if pb' = [] then st1
          else st1\<lparr>lines := drawn2 (last pb') (the (last rb')),
                   sink_calls2 := sink_calls2 st + 2 * length edges\<rparr>)"
proof -
  have b: "burst2 flt W 5 st = Inr st1"
    unfolding st1_def pb'_def rb'_def D_def using eq le by (rule burst2_result)
  have len: "length rb' = length pb'"
    unfolding pb'_def rb'_def using eq by (simp add: length_recent)
  show ?thesis
  proof (cases "pb' = []")
    case True
    then show ?thesis
      by (simp add: update2_def b exn_bind_def latest_def st1_def)
  next
    case False
    with len have rne: "rb' \<noteq> []" by auto
    have "set rb' \<subseteq> set (roll_buf st) \<union> snd ` set D"
      unfolding rb'_def using set_recent [of W "roll_buf st @ map snd D"] by simp
    moreover have "None \<notin> snd ` set D"
      unfolding D_def using decoded2_roll by fastforce
    ultimately have "None \<notin> set rb'" using some by blast
    with rne have "last rb' \<noteq> None" using last_in_set by metis
    then obtain roll where roll: "last rb' = Some roll" by auto
    have lat: "latest (pitch_buf st1) (roll_buf st1) = Inr (Some (last pb', Some roll))"
      using False rne roll by (simp add: latest_def index_last_def exn_bind_def st1_def)
    have "lines st1 = lines st" by (simp add: st1_def)
    with ln have sl: "set_lines rotated (lines st1) = map (edge_data rotated) edges" for rotated
      by (simp add: set_lines_all)
    have sc: "sink_calls2 st1 = sink_calls2 st" by (simp add: st1_def)
    show ?thesis
      using False roll
      by (simp add: update2_def b exn_bind_def lat sl sc Let_def drawn2_def)
  qed
qed

lemma init2_inv2: "inv2 W (init2 ls)"
  by (simp add: inv2_def init2_def)

lemma update2_inv2:
  assumes "inv2 W st"
  shows "\<exists>st'. update2 flt W st = Inr st' \<and> inv2 W st'
     \<and> ser2 st' = advance 5 (ser2 st)
     \<and> pitch_buf st' = recent W (pitch_buf st @ map fst (decoded2 flt (take 5 (pending (ser2 st)))))
     \<and> roll_buf st' = recent W (roll_buf st @ map snd (decoded2 flt (take 5 (pending (ser2 st)))))
     \<and> lines st' = (if pitch_buf st' = [] then lines st
                     else drawn2 (last (pitch_buf st')) (the (last (roll_buf st'))))"
proof -
  let ?D = "decoded2 flt (take 5 (pending (ser2 st)))"
  let ?pb = "recent W (pitch_buf st @ map fst ?D)"
  let ?rb = "recent W (roll_buf st @ map snd ?D)"
  from assms have eq: "length (pitch_buf st) = length (roll_buf st)"
    and le: "length (pitch_buf st) \<le> W"
    and some: "None \<notin> set (roll_buf st)"
    and ln: "length (lines st) = length edges"
    and shown: "pitch_buf st = [] \<or> lines st = drawn2 (last (pitch_buf st)) (the (last (roll_buf st)))"
    by (simp_all add: inv2_def)
  note r = update2_result [OF eq le some ln, of flt]
  have "set ?rb \<subseteq> set (roll_buf st) \<union> snd ` set ?D"
    using set_recent [of W "roll_buf st @ map snd ?D"] by simp
  moreover have "None \<notin> snd ` set ?D"
    using decoded2_roll by fastforce
  ultimately have none: "None \<notin> set ?rb" using some by blast
  have len: "length ?pb = length ?rb" "length ?pb \<le> W"
    using eq by (simp_all add: length_recent)
  show ?thesis
  proof (cases "?pb = []")
    case True
    then show ?thesis
      using r len none ln by (simp add: inv2_def)
  next
    case False
    then show ?thesis
      using r len none by (simp add: inv2_def length_drawn2)
  qed
qed

lemma run2_result:
  "inv2 W st \<Longrightarrow>
   \<exists>st'. run2 flt W n st = Inr st' \<and> inv2 W st'
     \<and> ser2 st' = advance (5 * n) (ser2 st)
     \<and> pitch_buf st' = recent W (pitch_buf st @ map fst (decoded2 flt (take (5 * n) (pending (ser2 st)))))
     \<and> roll_buf st' = recent W (roll_buf st @ map snd (decoded2 flt (take (5 * n) (pending (ser2 st)))))"
proof (induction n arbitrary: st)
  case 0
  then show ?case by (simp add: advance_0 decoded2_def recent_short inv2_def)
next
  case (Suc n)
  from update2_inv2 [OF Suc.prems, of flt] obtain st1 where
    u: "update2 flt W st = Inr st1" and i: "inv2 W st1"
    and s: "ser2 st1 = advance 5 (ser2 st)"
    and p: "pitch_buf st1 = recent W (pitch_buf st @ map fst (decoded2 flt (take 5 (pending (ser2 st)))))"
    and r: "roll_buf st1 = recent W (roll_buf st @ map snd (decoded2 flt (take 5 (pending (ser2 st)))))"
    by blast
  from Suc.IH [OF i] obtain st' where
    u': "run2 flt W n st1 = Inr st'" and i': "inv2 W st'"
    and s': "ser2 st' = advance (5 * n) (ser2 st1)"
    and p': "pitch_buf st' = recent W (pitch_buf st1 @ map fst (decoded2 flt (take (5 * n) (pending (ser2 st1)))))"
    and r': "roll_buf st' = recent W (roll_buf st1 @ map snd (decoded2 flt (take (5 * n) (pending (ser2 st1)))))"
    by blast
  have t: "take (5 * Suc n) (pending (ser2 st)) =
      take 5 (pending (ser2 st)) @ take (5 * n) (pending (ser2 st1))"
    unfolding s pending_advance using take_add [of 5 "5 * n" "pending (ser2 st)"] by simp
  have "run2 flt W (Suc n) st = Inr st'" by (simp add: u exn_bind_def u')
  moreover have "ser2 st' = advance (5 * Suc n) (ser2 st)"
    by (simp add: s' s advance_advance)
  moreover have "pitch_buf st' = recent W (pitch_buf st @ map fst (decoded2 flt (take (5 * Suc n) (pending (ser2 st)))))"
    unfolding p' p t by (simp add: recent_recent_append decoded2_append)
  moreover have "roll_buf st' = recent W (roll_buf st @ map snd (decoded2 flt (take (5 * Suc n) (pending (ser2 st)))))"
    unfolding r' r t by (simp add: recent_recent_append decoded2_append)
  ultimately show ?case using i' by blast
qed

lemma decoded2_skip:
  "(\<forall>x\<in>set raws. fst (parse_line2 flt x) = None) \<Longrightarrow> decoded2 flt raws = []"
proof (induction raws)
  case Nil
  show ?case by (simp add: decoded2_def)
next
  case (Cons raw raws)
  then have "fst (parse_line2 flt raw) = None" "decoded2 flt raws = []" by simp_all
  then show ?case by (cases "parse_line2 flt raw") (simp add: decoded2_Cons)
qed

lemma decoded2_none:
  "(\<forall>j<k. fst (parse_line2 flt (nth_line s j)) = None) \<Longrightarrow>
   decoded2 flt (take k (pending s)) = []"
proof -
  assume a: "\<forall>j<k. fst (parse_line2 flt (nth_line s j)) = None"
  have "fst (parse_line2 flt x) = None" if "x \<in> set (take k (pending s))" for x
  proof -
    from that obtain j where "j < length (take k (pending s))" "take k (pending s) ! j = x"
      by (auto simp: in_set_conv_nth)
    then have jk: "j < k" and nl: "nth_line s j = x" by (simp_all add: nth_line_def)
    from a jk have "fst (parse_line2 flt (nth_line s j)) = None" by simp
    then show ?thesis unfolding nl .
  qed
  then show ?thesis by (intro decoded2_skip) blast
qed

subsection \<open>The tick\<close>

lemma reachable2_inv2: "run2 flt W n (init2 ls) = Inr st \<Longrightarrow> inv2 W st"
  using run2_result [OF init2_inv2, of flt W n ls] by auto

text \<open>
  Claim C2, as amended. 3-axis variant: the read loop of a tick stops at the first line
  that decodes and makes no read after it; when line \<open>i\<close> (counted from 0, \<open>i < 3\<close>) is
  the first to decode, the loop has made exactly \<open>i + 1\<close> reads and leaves the result of
  that line, and when none of three lines decodes it has made exactly 3, and so has the
  tick. 2-axis variant: in a state reached from startup, a tick always makes exactly 5
  reads, whether or not a line decodes, and pushes every sample decoded from these five
  lines into the buffers, in order; the line objects then hold the box rotated by the
  last sample in the buffers, and what they held before while the buffers are empty.
\<close>

theorem burst_reads:
  "(i < 3 \<and> (\<forall>j<i. fst (parse_line3 flt (nth_line s j)) = None)
      \<and> fst (parse_line3 flt (nth_line s i)) \<noteq> None
      \<longrightarrow> burst3 flt 3 s = (Some (parse_line3 flt (nth_line s i)), advance (i + 1) s))
   \<and> ((\<forall>j<3. fst (parse_line3 flt (nth_line s j)) = None)
      \<longrightarrow> burst3 flt 3 s = (None, advance 3 s))
   \<and> ((\<forall>j<3. fst (parse_line3 flt (nth_line (ser3 st) j)) = None)
      \<longrightarrow> (\<exists>st'. update3 flt st = Inr st' \<and> ser3 st' = advance 3 (ser3 st)))
   \<and> (run2 flt W n (init2 ls) = Inr st2
      \<longrightarrow> (\<exists>st'. update2 flt W st2 = Inr st' \<and> ser2 st' = advance 5 (ser2 st2)
            \<and> pitch_buf st' =
                recent W (pitch_buf st2 @ map fst (decoded2 flt (take 5 (pending (ser2 st2)))))
            \<and> roll_buf st' =
                recent W (roll_buf st2 @ map snd (decoded2 flt (take 5 (pending (ser2 st2)))))
            \<and> lines st' =
                (if pitch_buf st' = [] then lines st2
                 else map (edge_data (matmul cube_definition (transpose
                        (rotation_matrix2 (last (pitch_buf st')) (the (last (roll_buf st')))))))
                      edges)))"
proof (intro conjI impI)
  assume a: "i < 3 \<and> (\<forall>j<i. fst (parse_line3 flt (nth_line s j)) = None)
      \<and> fst (parse_line3 flt (nth_line s i)) \<noteq> None"
  then have "burst3 flt 3 s = (Some (parse_line3 flt (nth_line s i)), advance (Suc i) s)"
    by (intro burst3_hit) simp_all
  then show "burst3 flt 3 s = (Some (parse_line3 flt (nth_line s i)), advance (i + 1) s)"
    by simp
next
  assume "\<forall>j<3. fst (parse_line3 flt (nth_line s j)) = None"
  then show "burst3 flt 3 s = (None, advance 3 s)"
    by (rule burst3_miss)
next
  assume "\<forall>j<3. fst (parse_line3 flt (nth_line (ser3 st) j)) = None"
  then have "update3 flt st = Inr (st\<lparr>ser3 := advance 3 (ser3 st)\<rparr>)"
    by (rule update3_skip)
  then show "\<exists>st'. update3 flt st = Inr st' \<and> ser3 st' = advance 3 (ser3 st)"
    by simp
next
  assume "run2 flt W n (init2 ls) = Inr st2"
  then have "inv2 W st2" by (rule reachable2_inv2)
  from update2_inv2 [OF this, of flt]
  show "\<exists>st'. update2 flt W st2 = Inr st' \<and> ser2 st' = advance 5 (ser2 st2)
            \<and> pitch_buf st' =
                recent W (pitch_buf st2 @ map fst (decoded2 flt (take 5 (pending (ser2 st2)))))
            \<and> roll_buf st' =
                recent W (roll_buf st2 @ map snd (decoded2 flt (take 5 (pending (ser2 st2)))))
            \<and> lines st' =
                (if pitch_buf st' = [] then lines st2
                 else map (edge_data (matmul cube_definition (transpose
                        (rotation_matrix2 (last (pitch_buf st')) (the (last (roll_buf st')))))))
                      edges)"
    unfolding drawn2_def by blast
qed

text \<open>The decoders on the lines used in the examples.\<close>

lemma parse3_x: "parse_line3 dec_float ''x'' = (None, None, None)"
  by (simp add: parse_line3_def dec_float_eval)

lemma parse3_5_10_15: "parse_line3 dec_float ''5,10,15'' = (Some 5, Some 10, Some 15)"
  by (simp add: parse_line3_def dec_float_eval)

lemma parse2_1_2: "parse_line2 dec_float ''1,2'' = (Some 1, Some 2)"
  by (simp add: parse_line2_def dec_float_eval)

lemma parse2_3_4: "parse_line2 dec_float ''3,4'' = (Some 3, Some 4)"
  by (simp add: parse_line2_def dec_float_eval)

lemma parse2_x: "parse_line2 dec_float ''x'' = (None, None)"
  by (simp add: parse_line2_def dec_float_eval)

theorem burst_reads_witness:
  "burst3 dec_float 3 (open_serial [''x'', ''5,10,15'', ''1,2,3'']) =
     (Some (Some 5, Some 10, Some 15), \<lparr>pending = [''1,2,3''], reads = 2\<rparr>)
   \<and> burst3 dec_float 3 (open_serial [''x'', ''x'', ''x'', ''5,10,15'']) =
     (None, \<lparr>pending = [''5,10,15''], reads = 3\<rparr>)
   \<and> (\<exists>st'. update3 dec_float (init3 [''x'', ''x'', ''x'', ''5,10,15'']) = Inr st'
        \<and> pending (ser3 st') = [''5,10,15''] \<and> reads (ser3 st') = 3)
   \<and> (\<exists>st'. update2 dec_float WINDOW (init2 [''1,2'', ''3,4'']) = Inr st'
        \<and> pending (ser2 st') = [] \<and> reads (ser2 st') = 5 \<and> pitch_buf st' = [1, 3]
        \<and> roll_buf st' = [Some 2, Some 4]
        \<and> lines st' = map (edge_data (matmul cube_definition
                               (transpose (rotation_matrix2 3 4)))) edges)"
proof -
  let ?sa = "open_serial [''x'', ''5,10,15'', ''1,2,3'']"
  let ?sb = "open_serial [''x'', ''x'', ''x'', ''5,10,15'']"
  let ?b = "init3 [''x'', ''x'', ''x'', ''5,10,15'']"
  let ?c = "init2 [''1,2'', ''3,4'']"
  have ha: "(1::nat) < 3 \<and> (\<forall>j<1. fst (parse_line3 dec_float (nth_line ?sa j)) = None)
      \<and> fst (parse_line3 dec_float (nth_line ?sa 1)) \<noteq> None"
    by (simp add: open_serial_def nth_line_def parse3_x parse3_5_10_15)
  have hb: "\<forall>j<3. fst (parse_line3 dec_float (nth_line ?sb j)) = None"
    by (simp add: open_serial_def nth_line_def parse3_x nth_Cons split: nat.splits)
  have hb': "\<forall>j<3. fst (parse_line3 dec_float (nth_line (ser3 ?b) j)) = None"
    using hb by (simp add: init3_def)
  have hc: "run2 dec_float WINDOW 0 ?c = Inr ?c"
    by simp
  from burst_reads [of 1 dec_float ?sa ?b WINDOW 0 "[''1,2'', ''3,4'']" ?c] ha
  have "burst3 dec_float 3 ?sa =
      (Some (parse_line3 dec_float (nth_line ?sa 1)), advance (1 + 1) ?sa)"
    by blast
  then have a: "burst3 dec_float 3 ?sa =
      (Some (Some 5, Some 10, Some 15), \<lparr>pending = [''1,2,3''], reads = 2\<rparr>)"
    by (simp add: advance_def open_serial_def nth_line_def parse3_5_10_15)
  from burst_reads [of 1 dec_float ?sb ?b WINDOW 0 "[''1,2'', ''3,4'']" ?c] hb
  have "burst3 dec_float 3 ?sb = (None, advance 3 ?sb)"
    by blast
  then have b: "burst3 dec_float 3 ?sb = (None, \<lparr>pending = [''5,10,15''], reads = 3\<rparr>)"
    by (simp add: advance_def open_serial_def)
  from burst_reads [of 1 dec_float ?sb ?b WINDOW 0 "[''1,2'', ''3,4'']" ?c] hb'
  have "\<exists>st'. update3 dec_float ?b = Inr st' \<and> ser3 st' = advance 3 (ser3 ?b)"
    by blast
  then have b': "\<exists>st'. update3 dec_float ?b = Inr st'
        \<and> pending (ser3 st') = [''5,10,15''] \<and> reads (ser3 st') = 3"
    by (auto simp: advance_def init3_def open_serial_def)
  have d: "decoded2 dec_float [''1,2'', ''3,4''] = [(1, Some 2), (3, Some 4)]"
    by (simp add: decoded2_def parse2_1_2 parse2_3_4)
  from burst_reads [of 1 dec_float ?sb ?b WINDOW 0 "[''1,2'', ''3,4'']" ?c] hc
  obtain st' where u: "update2 dec_float WINDOW ?c = Inr st'"
    and s: "ser2 st' = advance 5 (ser2 ?c)"
    and p: "pitch_buf st' = recent WINDOW (pitch_buf ?c
          @ map fst (decoded2 dec_float (take 5 (pending (ser2 ?c)))))"
    and r: "roll_buf st' = recent WINDOW (roll_buf ?c
          @ map snd (decoded2 dec_float (take 5 (pending (ser2 ?c)))))"
    and l: "lines st' =
        (if pitch_buf st' = [] then lines ?c
         else map (edge_data (matmul cube_definition (transpose
                (rotation_matrix2 (last (pitch_buf st')) (the (last (roll_buf st')))))))
              edges)"
    by blast
  have p': "pitch_buf st' = [1, 3]"
    using p by (simp add: init2_def open_serial_def d recent_def WINDOW_def)
  have r': "roll_buf st' = [Some 2, Some 4]"
    using r by (simp add: init2_def open_serial_def d recent_def WINDOW_def)
  have s': "pending (ser2 st') = []" "reads (ser2 st') = 5"
    using s by (simp_all add: advance_def init2_def open_serial_def)
  have l': "lines st' = map (edge_data (matmul cube_definition
                               (transpose (rotation_matrix2 3 4)))) edges"
    using l by (simp add: p' r')
  from u s' p' r' l' have c: "\<exists>st'. update2 dec_float WINDOW ?c = Inr st'
        \<and> pending (ser2 st') = [] \<and> reads (ser2 st') = 5 \<and> pitch_buf st' = [1, 3]
        \<and> roll_buf st' = [Some 2, Some 4]
        \<and> lines st' = map (edge_data (matmul cube_definition
                               (transpose (rotation_matrix2 3 4)))) edges"
    by blast
  from a b b' c show ?thesis by (intro conjI)
qed

lemma decoded2_1_2_3_4: "decoded2 dec_float [''1,2'', ''3,4''] = [(1, Some 2), (3, Some 4)]"
  by (simp add: decoded2_def parse2_1_2 parse2_3_4)

lemma tick2_two_lines:
  "update2 dec_float WINDOW (init2 [''1,2'', ''3,4'']) =
     Inr ((init2 [''1,2'', ''3,4''])\<lparr>ser2 := \<lparr>pending = [], reads = 5\<rparr>,
            pitch_buf := [1, 3], roll_buf := [Some 2, Some 4],
            lines := drawn2 3 4, sink_calls2 := 24\<rparr>)"
  using update2_result [where st = "init2 [''1,2'', ''3,4'']" and W = WINDOW and flt = dec_float]
  by (simp add: init2_def open_serial_def decoded2_1_2_3_4 recent_def WINDOW_def advance_def
      edges_def)

text \<open>
  Claim C2 as stated fails in the 2-axis variant: the first line of the tick decodes, and
  the tick still makes all five reads and buffers the second line as well.
\<close>

theorem burst_reads_counterexample:
  "fst (parse_line2 dec_float ''1,2'') = Some 1
   \<and> map_sum id (reads \<circ> ser2) (update2 dec_float WINDOW (init2 [''1,2'', ''3,4''])) = Inr 5
   \<and> map_sum id pitch_buf (update2 dec_float WINDOW (init2 [''1,2'', ''3,4''])) = Inr [1, 3]"
  by (simp add: tick2_two_lines parse2_1_2)

lemma decoded2_1_2: "decoded2 dec_float [''1,2''] = [(1, Some 2)]"
  by (simp add: decoded2_def parse2_1_2)

lemma tick2_first:
  "update2 dec_float WINDOW (init2 [''1,2'']) =
     Inr ((init2 [''1,2''])\<lparr>ser2 := \<lparr>pending = [], reads = 5\<rparr>,
            pitch_buf := [1], roll_buf := [Some 2],
            lines := drawn2 1 2, sink_calls2 := 24\<rparr>)"
  using update2_result [where st = "init2 [''1,2'']" and W = WINDOW and flt = dec_float]
  by (simp add: init2_def open_serial_def decoded2_1_2 recent_def WINDOW_def advance_def
      edges_def)

lemma tick2_second:
  "update2 dec_float WINDOW
     ((init2 [''1,2''])\<lparr>ser2 := \<lparr>pending = [], reads = 5\<rparr>,
            pitch_buf := [1], roll_buf := [Some 2],
            lines := drawn2 1 2, sink_calls2 := 24\<rparr>) =
     Inr ((init2 [''1,2''])\<lparr>ser2 := \<lparr>pending = [], reads = 10\<rparr>,
            pitch_buf := [1], roll_buf := [Some 2],
            lines := drawn2 1 2, sink_calls2 := 48\<rparr>)"
  using update2_result [where st = "(init2 [''1,2''])\<lparr>ser2 := \<lparr>pending = [], reads = 5\<rparr>,
            pitch_buf := [1], roll_buf := [Some 2],
            lines := drawn2 1 2, sink_calls2 := 24\<rparr>" and W = WINDOW and flt = dec_float]
  by (simp add: init2_def open_serial_def decoded2_def recent_def WINDOW_def advance_def
      edges_def length_drawn2)

lemma run2_one_tick:
  "run2 dec_float WINDOW 1 (init2 [''1,2'']) =
     Inr ((init2 [''1,2''])\<lparr>ser2 := \<lparr>pending = [], reads = 5\<rparr>,
            pitch_buf := [1], roll_buf := [Some 2],
            lines := drawn2 1 2, sink_calls2 := 24\<rparr>)"
  by (simp add: tick2_first exn_bind_def)

lemma run2_two_ticks:
  "run2 dec_float WINDOW 2 (init2 [''1,2'']) =
     Inr ((init2 [''1,2''])\<lparr>ser2 := \<lparr>pending = [], reads = 10\<rparr>,
            pitch_buf := [1], roll_buf := [Some 2],
            lines := drawn2 1 2, sink_calls2 := 48\<rparr>)"
  by (simp add: numeral_2_eq_2 tick2_first tick2_second exn_bind_def)

text \<open>
  Claim C3, as amended. When none of the lines read in a tick decodes, the tick returns
  without an error. In the 3-axis variant nothing but the port changes: no label and no
  polygon collection is set. In the 2-axis variant, in a state reached from startup, the
  buffers keep their content and the twelve line objects keep their data; no drawn
  object is set while the buffers are empty, and otherwise every line object is set
  again, to the data of the latest buffered sample, which it already holds.
\<close>

theorem tick_without_sample:
  "((\<forall>j<3. fst (parse_line3 flt (nth_line (ser3 st) j)) = None)
      \<longrightarrow> update3 flt st = Inr (st\<lparr>ser3 := advance 3 (ser3 st)\<rparr>))
   \<and> (run2 flt W n (init2 ls) = Inr st2
       \<and> (\<forall>j<5. fst (parse_line2 flt (nth_line (ser2 st2) j)) = None)
      \<longrightarrow> update2 flt W st2 =
            Inr (st2\<lparr>ser2 := advance 5 (ser2 st2),
                     sink_calls2 := (if pitch_buf st2 = [] then sink_calls2 st2
                                     else sink_calls2 st2 + 2 * length edges)\<rparr>))"
proof (intro conjI impI)
  assume "\<forall>j<3. fst (parse_line3 flt (nth_line (ser3 st) j)) = None"
  then show "update3 flt st = Inr (st\<lparr>ser3 := advance 3 (ser3 st)\<rparr>)"
    by (rule update3_skip)
next
  assume a: "run2 flt W n (init2 ls) = Inr st2
       \<and> (\<forall>j<5. fst (parse_line2 flt (nth_line (ser2 st2) j)) = None)"
  then have "run2 flt W n (init2 ls) = Inr st2" by simp
  then have "inv2 W st2" by (rule reachable2_inv2)
  then have eq: "length (pitch_buf st2) = length (roll_buf st2)"
    and le: "length (pitch_buf st2) \<le> W"
    and some: "None \<notin> set (roll_buf st2)"
    and ln: "length (lines st2) = length edges"
    and shown: "pitch_buf st2 = []
        \<or> lines st2 = drawn2 (last (pitch_buf st2)) (the (last (roll_buf st2)))"
    by (simp_all add: inv2_def)
  from a have d: "decoded2 flt (take 5 (pending (ser2 st2))) = []"
    by (intro decoded2_none) simp
  from le have p: "recent W (pitch_buf st2) = pitch_buf st2" by (rule recent_short)
  from le eq have r: "recent W (roll_buf st2) = roll_buf st2" by (intro recent_short) simp
  show "update2 flt W st2 =
            Inr (st2\<lparr>ser2 := advance 5 (ser2 st2),
                     sink_calls2 := (if pitch_buf st2 = [] then sink_calls2 st2
                                     else sink_calls2 st2 + 2 * length edges)\<rparr>)"
  proof (cases "pitch_buf st2 = []")
    case True
    with eq have "roll_buf st2 = []" by simp
    with True show ?thesis
      using update2_result [OF eq le some ln, of flt]
      by (simp add: d recent_def)
  next
    case False
    with shown have "lines st2 = drawn2 (last (pitch_buf st2)) (the (last (roll_buf st2)))"
      by simp
    then have l: "drawn2 (last (pitch_buf st2)) (the (last (roll_buf st2))) = lines st2"
      by simp
    have "update2 flt W st2 =
        Inr (st2\<lparr>ser2 := advance 5 (ser2 st2),
                 lines := drawn2 (last (pitch_buf st2)) (the (last (roll_buf st2))),
                 sink_calls2 := sink_calls2 st2 + 2 * length edges\<rparr>)"
      using update2_result [OF eq le some ln, of flt] False by (simp add: d p r)
    also have "st2\<lparr>ser2 := advance 5 (ser2 st2),
                 lines := drawn2 (last (pitch_buf st2)) (the (last (roll_buf st2))),
                 sink_calls2 := sink_calls2 st2 + 2 * length edges\<rparr> =
        st2\<lparr>ser2 := advance 5 (ser2 st2),
             sink_calls2 := sink_calls2 st2 + 2 * length edges\<rparr>"
      unfolding l by (intro state2.equality) simp_all
    finally show ?thesis using False by simp
  qed
qed

theorem tick_without_sample_witness:
  "update3 dec_float (init3 [''x'', ''x'', ''x'', ''5,10,15'']) =
     Inr ((init3 [''x'', ''x'', ''x'', ''5,10,15''])\<lparr>ser3 := \<lparr>pending = [''5,10,15''], reads = 3\<rparr>\<rparr>)
   \<and> run2 dec_float WINDOW 1 (init2 [''1,2'']) =
       Inr ((init2 [''1,2''])\<lparr>ser2 := \<lparr>pending = [], reads = 5\<rparr>,
            pitch_buf := [1], roll_buf := [Some 2],
            lines := drawn2 1 2, sink_calls2 := 24\<rparr>)
   \<and> update2 dec_float WINDOW
        ((init2 [''1,2''])\<lparr>ser2 := \<lparr>pending = [], reads = 5\<rparr>,
            pitch_buf := [1], roll_buf := [Some 2],
            lines := drawn2 1 2, sink_calls2 := 24\<rparr>) =
       Inr ((init2 [''1,2''])\<lparr>ser2 := \<lparr>pending = [], reads = 10\<rparr>,
            pitch_buf := [1], roll_buf := [Some 2],
            lines := drawn2 1 2, sink_calls2 := 48\<rparr>)"
proof -
  let ?b = "init3 [''x'', ''x'', ''x'', ''5,10,15'']"
  let ?s1 = "(init2 [''1,2''])\<lparr>ser2 := \<lparr>pending = [], reads = 5\<rparr>,
            pitch_buf := [1], roll_buf := [Some 2],
            lines := drawn2 1 2, sink_calls2 := 24\<rparr>"
  note t = tick_without_sample [where flt = dec_float and st = ?b and W = WINDOW and n = 1
      and ls = "[''1,2'']" and ?st2.0 = ?s1]
  have hb: "\<forall>j<3. fst (parse_line3 dec_float (nth_line (ser3 ?b) j)) = None"
    by (simp add: init3_def open_serial_def nth_line_def parse3_x nth_Cons split: nat.splits)
  have hr: "run2 dec_float WINDOW 1 (init2 [''1,2'']) = Inr ?s1"
    by (rule run2_one_tick)
  have hn: "\<forall>j<5. fst (parse_line2 dec_float (nth_line (ser2 ?s1) j)) = None"
    by (simp add: nth_line_def parse_line2_empty)
  from t hb have a: "update3 dec_float ?b = Inr (?b\<lparr>ser3 := advance 3 (ser3 ?b)\<rparr>)"
    by blast
  from t hr hn have c: "update2 dec_float WINDOW ?s1 =
      Inr (?s1\<lparr>ser2 := advance 5 (ser2 ?s1),
               sink_calls2 := (if pitch_buf ?s1 = [] then sink_calls2 ?s1
                               else sink_calls2 ?s1 + 2 * length edges)\<rparr>)"
    by blast
  have a': "update3 dec_float ?b = Inr (?b\<lparr>ser3 := \<lparr>pending = [''5,10,15''], reads = 3\<rparr>\<rparr>)"
    using a by (simp add: advance_def init3_def open_serial_def)
  have c': "update2 dec_float WINDOW ?s1 =
       Inr ((init2 [''1,2''])\<lparr>ser2 := \<lparr>pending = [], reads = 10\<rparr>,
            pitch_buf := [1], roll_buf := [Some 2],
            lines := drawn2 1 2, sink_calls2 := 48\<rparr>)"
    using c by (simp add: advance_def edges_def)
  from a' hr c' show ?thesis by (intro conjI)
qed

text \<open>
  Claim C3 as stated fails in the 2-axis variant: after a first tick has buffered a sample
  the port is silent, and the second tick still sets all twelve line objects (24 more
  calls).
\<close>

theorem tick_without_sample_counterexample:
  "map_sum id (pending \<circ> ser2) (run2 dec_float WINDOW 1 (init2 [''1,2''])) = Inr []
   \<and> map_sum id sink_calls2 (run2 dec_float WINDOW 1 (init2 [''1,2''])) = Inr 24
   \<and> map_sum id sink_calls2 (run2 dec_float WINDOW 2 (init2 [''1,2''])) = Inr 48"
  unfolding run2_one_tick run2_two_ticks by simp

text \<open>
  Claim C10. In the 2-axis variant, after any number of ticks from startup the run has
  raised nothing, \<open>pitch_buf\<close> and \<open>roll_buf\<close> have the same length, and the pairs
  \<open>(pitch_buf[i], roll_buf[i])\<close> are, in order, the most recent \<open>W\<close> samples decoded
  from the lines read so far (five per tick); so each pair is the result of
  \<open>parse_line\<close> on one of these lines.
\<close>

theorem buffers_in_lockstep:
  "\<exists>st. run2 flt W n (init2 ls) = Inr st
     \<and> length (pitch_buf st) = length (roll_buf st)
     \<and> zip (pitch_buf st) (roll_buf st) = recent W (decoded2 flt (take (5 * n) ls))
     \<and> (\<forall>i<length (pitch_buf st). \<exists>raw\<in>set (take (5 * n) ls).
            parse_line2 flt raw = (Some (pitch_buf st ! i), roll_buf st ! i))"
proof -
  let ?D = "decoded2 flt (take (5 * n) ls)"
  from run2_result [OF init2_inv2, of flt W n ls] obtain st where
    run: "run2 flt W n (init2 ls) = Inr st"
    and pb: "pitch_buf st = recent W (pitch_buf (init2 ls) @ map fst (decoded2 flt (take (5 * n) (pending (ser2 (init2 ls))))))"
    and rb: "roll_buf st = recent W (roll_buf (init2 ls) @ map snd (decoded2 flt (take (5 * n) (pending (ser2 (init2 ls))))))"
    by blast
  have pb': "pitch_buf st = map fst (recent W ?D)"
    using pb by (simp add: init2_def open_serial_def recent_def drop_map)
  have rb': "roll_buf st = map snd (recent W ?D)"
    using rb by (simp add: init2_def open_serial_def recent_def drop_map)
  have len: "length (pitch_buf st) = length (roll_buf st)"
    by (simp add: pb' rb')
  have z: "zip (pitch_buf st) (roll_buf st) = recent W ?D"
    by (simp add: pb' rb' zip_map_fst_snd)
  have src: "\<forall>i<length (pitch_buf st). \<exists>raw\<in>set (take (5 * n) ls).
            parse_line2 flt raw = (Some (pitch_buf st ! i), roll_buf st ! i)"
  proof (intro allI impI)
    fix i assume i: "i < length (pitch_buf st)"
    then have il: "i < length (recent W ?D)" by (simp add: pb')
    then have "recent W ?D ! i \<in> set (recent W ?D)" by (rule nth_mem)
    with set_recent [of W ?D] have "recent W ?D ! i \<in> set ?D" by blast
    moreover have "recent W ?D ! i = (pitch_buf st ! i, roll_buf st ! i)"
      using il by (simp add: pb' rb' prod_eq_iff)
    ultimately have "(pitch_buf st ! i, roll_buf st ! i) \<in> set ?D" by simp
    then show "\<exists>raw\<in>set (take (5 * n) ls).
            parse_line2 flt raw = (Some (pitch_buf st ! i), roll_buf st ! i)"
      by (rule decoded2_source)
  qed
  from run len z src show ?thesis by blast
qed

lemma decoded2_1_2_x_3_4:
  "decoded2 dec_float [''1,2'', ''x'', ''3,4''] = [(1, Some 2), (3, Some 4)]"
  by (simp add: decoded2_def parse2_1_2 parse2_3_4 parse2_x)

theorem buffers_in_lockstep_witness:
  "\<exists>st. run2 dec_float WINDOW 1 (init2 [''1,2'', ''x'', ''3,4'']) = Inr st
     \<and> pitch_buf st = [1, 3] \<and> roll_buf st = [Some 2, Some 4]
     \<and> (\<forall>i<2. \<exists>raw\<in>set [''1,2'', ''x'', ''3,4''].
            parse_line2 dec_float raw = (Some (pitch_buf st ! i), roll_buf st ! i))"
proof -
  from buffers_in_lockstep [of dec_float WINDOW 1 "[''1,2'', ''x'', ''3,4'']"]
  obtain st where run: "run2 dec_float WINDOW 1 (init2 [''1,2'', ''x'', ''3,4'']) = Inr st"
    and len: "length (pitch_buf st) = length (roll_buf st)"
    and z: "zip (pitch_buf st) (roll_buf st) =
        recent WINDOW (decoded2 dec_float (take (5 * 1) [''1,2'', ''x'', ''3,4'']))"
    and src: "\<forall>i<length (pitch_buf st). \<exists>raw\<in>set (take (5 * 1) [''1,2'', ''x'', ''3,4'']).
            parse_line2 dec_float raw = (Some (pitch_buf st ! i), roll_buf st ! i)"
    by blast
  from z have z': "zip (pitch_buf st) (roll_buf st) = [(1, Some 2), (3, Some 4)]"
    by (simp add: decoded2_1_2_x_3_4 recent_def WINDOW_def)
  from len have "pitch_buf st = map fst (zip (pitch_buf st) (roll_buf st))"
    "roll_buf st = map snd (zip (pitch_buf st) (roll_buf st))"
    by simp_all
  then have b: "pitch_buf st = [1, 3]" "roll_buf st = [Some 2, Some 4]"
    unfolding z' by simp_all
  from src b have "\<forall>i<2. \<exists>raw\<in>set [''1,2'', ''x'', ''3,4''].
            parse_line2 dec_float raw = (Some (pitch_buf st ! i), roll_buf st ! i)"
    by simp
  with run b show ?thesis by blast
qed

subsection \<open>Where the vertices of a tick come from\<close>

text \<open>2-axis variant: after a tick from a state reached from startup, the line objects
  hold the box \<open>cube_definition\<close>, as built at startup, rotated by the matrix of the
  latest sample.\<close>

lemma update2_draws_startup_box:
  assumes "run2 flt W n (init2 ls) = Inr st" "update2 flt W st = Inr st'" "pitch_buf st' \<noteq> []"
  shows "lines st' =
     map (edge_data (matmul cube_definition
            (transpose (rotation_matrix2 (last (pitch_buf st')) (the (last (roll_buf st')))))))
         edges"
proof -
  from assms(1) have "inv2 W st" by (rule reachable2_inv2)
  from update2_inv2 [OF this, of flt] assms(2) have "inv2 W st'" by auto
  with assms(3) show ?thesis by (simp add: inv2_def drawn2_def)
qed

text \<open>3-axis variant: a tick in which a line decodes raises before any collection is
  set (\<open>update3_apply\<close>), so no vertex is ever recomputed.\<close>

lemma rotation_matrix3_yaw90: "rotation_matrix3 90 0 0 = [[0, - 1, 0], [1, 0, 0], [0, 0, 1]]"
  by (simp add: rotation_matrix3_entries radians_def Let_def)

lemma parse3_90_0_0: "parse_line3 dec_float ''90,0,0'' = (Some 90, Some 0, Some 0)"
  by (simp add: parse_line3_def dec_float_eval)

lemma beak_faces_0: "\<exists>a b. beak_faces ! 0 = [a, b, [0, 0.18, 0.42]]"
  by (simp add: beak_faces_def create_cone_nth)

text \<open>
  Claim C1, evaluated on the 3-axis variant. The port delivers the line \<open>90,0,0\<close>, which
  decodes to yaw 90, pitch 0, roll 0. The tick makes one read, sets the three labels and
  then raises \<open>AttributeError\<close> at \<open>poly.get_verts()\<close>: the three collections hold the
  vertices they held at startup. The apex of the beak is still (0, 0.18, 0.42), while
  the rotation matrix of the sample applied to it is (-0.18, 0, 0.42).
\<close>

theorem update3_raises_before_rotating:
  "update3 dec_float (init3 [''90,0,0'']) =
     Inl (AttributeError,
          (init3 [''90,0,0''])\<lparr>ser3 := \<lparr>pending = [], reads = 1\<rparr>,
             yaw_text := Some 90, pitch_text := Some 0, roll_text := Some 0,
             sink_calls3 := 3\<rparr>)
   \<and> beak_tip ((init3 [''90,0,0''])\<lparr>ser3 := \<lparr>pending = [], reads = 1\<rparr>,
             yaw_text := Some 90, pitch_text := Some 0, roll_text := Some 0,
             sink_calls3 := 3\<rparr>) = [0, 0.18, 0.42]
   \<and> beak_tip (init3 [''90,0,0'']) = [0, 0.18, 0.42]
   \<and> matmul [beak_tip (init3 [''90,0,0''])] (transpose (rotation_matrix3 90 0 0)) =
       [[- 0.18, 0, 0.42]]"
proof -
  let ?st0 = "init3 [''90,0,0'']"
  have n0: "parse_line3 dec_float (nth_line (ser3 ?st0) 0) = (Some 90, Some 0, Some 0)"
    by (simp add: init3_def open_serial_def nth_line_def parse3_90_0_0)
  have "update3 dec_float ?st0 =
     Inl (AttributeError,
          ?st0\<lparr>ser3 := advance (Suc 0) (ser3 ?st0),
             yaw_text := Some 90, pitch_text := Some 0, roll_text := Some 0,
             sink_calls3 := sink_calls3 ?st0 + 3\<rparr>)"
    using n0 by (intro update3_apply) simp_all
  then have u: "update3 dec_float ?st0 =
     Inl (AttributeError,
          ?st0\<lparr>ser3 := \<lparr>pending = [], reads = 1\<rparr>,
             yaw_text := Some 90, pitch_text := Some 0, roll_text := Some 0,
             sink_calls3 := 3\<rparr>)"
    by (simp add: advance_def init3_def open_serial_def)
  from beak_faces_0 obtain a b where f0: "beak_faces ! 0 = [a, b, [0, 0.18, 0.42]]"
    by blast
  have t0: "beak_tip ?st0 = [0, 0.18, 0.42]"
    by (simp add: beak_tip_def init3_def f0)
  have t1: "beak_tip (?st0\<lparr>ser3 := \<lparr>pending = [], reads = 1\<rparr>,
             yaw_text := Some 90, pitch_text := Some 0, roll_text := Some 0,
             sink_calls3 := 3\<rparr>) = [0, 0.18, 0.42]"
    by (simp add: beak_tip_def init3_def f0)
  have m: "matmul [beak_tip ?st0] (transpose (rotation_matrix3 90 0 0)) = [[- 0.18, 0, 0.42]]"
    by (simp add: t0 rotation_matrix3_yaw90 matmul_def dot_def)
  show ?thesis by (intro conjI u t1 t0 m)
qed

end
